theory Spec2Isabelle
  imports Complex_Main
begin

section \<open>Card generator (\<open>generateBingoCard\<close> of server.js)\<close>

text \<open>
  The generator draws its numbers with \<open>Math.random()\<close>. The model takes the values
  that \<open>Math.random()\<close> returned, in the order of the calls, as a list of reals
  (each one in the half-open unit interval, see \<open>unit_samples\<close>); a loop that asks for
  a sample when the list is used up has not returned within these samples and yields
  \<open>None\<close>. Every function that samples returns the unused rest of the list.
\<close>

definition unit_samples :: "real list \<Rightarrow> bool" where
  "unit_samples us = list_all (\<lambda>u. 0 \<le> u \<and> u < 1) us"

definition numbersPerRow :: nat where
  "numbersPerRow = 5"

definition columnRanges :: "(nat \<times> nat) list" where
  "columnRanges = [(1, 15), (16, 30), (31, 45), (46, 60), (61, 75)]"

definition centerCol :: nat where
  "centerCol = 2"

text \<open>\<open>Math.floor(numbersPerCard / numbersPerRow)\<close> and \<open>numbersPerCard % numbersPerRow\<close>.\<close>

definition numbersPerColumn :: "nat \<Rightarrow> int" where
  "numbersPerColumn numbersPerCard = \<lfloor>real numbersPerCard / real numbersPerRow\<rfloor>"

definition remainder :: "nat \<Rightarrow> nat" where
  "remainder numbersPerCard = numbersPerCard mod numbersPerRow"

text \<open>
  The body of the first loop for one column. The inner loop of the source counts
  \<open>colsBeforeWithExtra\<close>, a value that is never read; it is left out.
\<close>

definition positionInNonCenter :: "nat \<Rightarrow> nat" where
  "positionInNonCenter col = (if col < centerCol then col else col - 1)"

definition targetCount :: "nat \<Rightarrow> nat \<Rightarrow> int" where
  "targetCount numbersPerCard col =
     (if col = centerCol then numbersPerColumn numbersPerCard
      else if positionInNonCenter col < remainder numbersPerCard
           then numbersPerColumn numbersPerCard + 1
           else numbersPerColumn numbersPerCard)"

definition totalTarget :: "nat \<Rightarrow> int" where
  "totalTarget numbersPerCard = sum_list (map (targetCount numbersPerCard) [0..<numbersPerRow])"

text \<open>The counts after the adjustment of the last column (\<open>targetCounts[numbersPerRow - 1] += diff\<close>).\<close>

definition targetCounts :: "nat \<Rightarrow> int list" where
  "targetCounts numbersPerCard =
     (let counts = map (targetCount numbersPerCard) [0..<numbersPerRow] in
      if totalTarget numbersPerCard \<noteq> int numbersPerCard
      then counts[numbersPerRow - 1 :=
             counts ! (numbersPerRow - 1) + (int numbersPerCard - totalTarget numbersPerCard)]
      else counts)"

text \<open>
  \<open>Math.floor(Math.random() * (range.max - range.min + 1)) + range.min\<close> for the sample
  \<open>u\<close>. The product is the exact one; the rounding of the floating-point product is not
  modelled.
\<close>

definition randomInRange :: "real \<Rightarrow> nat \<times> nat \<Rightarrow> nat" where
  "randomInRange u rng = nat \<lfloor>u * real (snd rng - fst rng + 1)\<rfloor> + fst rng"

text \<open>The \<open>while (numbers.length < count)\<close> loop of one column, with its \<open>used\<close> set.\<close>

fun fillColumn :: "int \<Rightarrow> nat \<times> nat \<Rightarrow> nat list \<Rightarrow> nat set \<Rightarrow> real list
    \<Rightarrow> (nat list \<times> real list) option" where
  "fillColumn count rng numbers used [] =
     (if int (length numbers) < count then None else Some (numbers, []))"
| "fillColumn count rng numbers used (u # us) =
     (if int (length numbers) < count
      then (let num = randomInRange u rng in
            if num \<notin> used
            then fillColumn count rng (numbers @ [num]) (insert num used) us
            else fillColumn count rng numbers used us)
      else Some (numbers, u # us))"

text \<open>The loop over the columns: each column is filled, then sorted ascending.\<close>

fun generateColumns :: "(int \<times> (nat \<times> nat)) list \<Rightarrow> real list
    \<Rightarrow> (nat list list \<times> real list) option" where
  "generateColumns [] us = Some ([], us)"
| "generateColumns ((count, rng) # rest) us =
     (case fillColumn count rng [] {} us of
        None \<Rightarrow> None
      | Some (numbers, us') \<Rightarrow>
          (case generateColumns rest us' of
             None \<Rightarrow> None
           | Some (columnNumbers, us'') \<Rightarrow> Some (sort numbers # columnNumbers, us'')))"

text \<open>
  One column of \<open>matrix\<close>: the rows from top to bottom, \<open>numberIndex\<close> counting the
  numbers already placed. A cell is \<open>None\<close> for the \<open>null\<close> of the source.
\<close>

fun matrixColumn :: "nat \<Rightarrow> nat \<Rightarrow> nat list \<Rightarrow> nat \<Rightarrow> nat list \<Rightarrow> nat option list" where
  "matrixColumn col centerRow numbers numberIndex [] = []"
| "matrixColumn col centerRow numbers numberIndex (row # rows) =
     (if row = centerRow \<and> col = centerCol
      then None # matrixColumn col centerRow numbers numberIndex rows
      else if numberIndex < length numbers
           then Some (numbers ! numberIndex)
                  # matrixColumn col centerRow numbers (numberIndex + 1) rows
           else None # matrixColumn col centerRow numbers numberIndex rows)"

record cardData =
  cd_numbers :: "nat list"
  cd_grid :: "nat option list"
  cd_numbersPerRow :: nat
  cd_numbersPerCol :: nat
  cd_centerRow :: nat
  cd_centerCol :: nat

definition numbersPerCol :: "nat \<Rightarrow> nat" where
  "numbersPerCol numbersPerCard = nat \<lceil>real (numbersPerCard + 1) / real numbersPerRow\<rceil>"

definition buildGrid :: "nat \<Rightarrow> nat list list \<Rightarrow> nat option list" where
  "buildGrid numbersPerCard columnNumbers =
     (let rows = numbersPerCol numbersPerCard;
          centerRow = rows div 2;
          matrix = map (\<lambda>col. matrixColumn col centerRow (columnNumbers ! col) 0 [0..<rows])
                     [0..<numbersPerRow]
      in concat (map (\<lambda>row. map (\<lambda>col. matrix ! col ! row) [0..<numbersPerRow]) [0..<rows]))"

definition generateBingoCard :: "nat \<Rightarrow> real list \<Rightarrow> (cardData \<times> real list) option" where
  "generateBingoCard numbersPerCard us =
     (case generateColumns (zip (targetCounts numbersPerCard) columnRanges) us of
        None \<Rightarrow> None
      | Some (columnNumbers, us') \<Rightarrow>
          Some (\<lparr> cd_numbers = sort (concat columnNumbers),
                  cd_grid = buildGrid numbersPerCard columnNumbers,
                  cd_numbersPerRow = numbersPerRow,
                  cd_numbersPerCol = numbersPerCol numbersPerCard,
                  cd_centerRow = numbersPerCol numbersPerCard div 2,
                  cd_centerCol = centerCol \<rparr>, us'))"

text \<open>
  The matrix loop writes \<open>null\<close> at two places: for the free cell (the centre position,
  the "coringa" of the source) and for a cell beyond the numbers of its column. The
  following definitions repeat \<open>matrixColumn\<close> and the grid with every cell tagged by the
  statement that wrote it; \<open>cellValue\<close> is the value that the source stores for a cell.
\<close>

datatype cell = Number nat | Free | Empty

fun cellValue :: "cell \<Rightarrow> nat option" where
  "cellValue (Number x) = Some x"
| "cellValue Free = None"
| "cellValue Empty = None"

fun matrixCells :: "nat \<Rightarrow> nat \<Rightarrow> nat list \<Rightarrow> nat \<Rightarrow> nat list \<Rightarrow> cell list" where
  "matrixCells col centerRow numbers numberIndex [] = []"
| "matrixCells col centerRow numbers numberIndex (row # rows) =
     (if row = centerRow \<and> col = centerCol
      then Free # matrixCells col centerRow numbers numberIndex rows
      else if numberIndex < length numbers
           then Number (numbers ! numberIndex)
                  # matrixCells col centerRow numbers (numberIndex + 1) rows
           else Empty # matrixCells col centerRow numbers numberIndex rows)"

definition gridCells :: "nat \<Rightarrow> nat list list \<Rightarrow> cell list" where
  "gridCells numbersPerCard columnNumbers =
     (let rows = numbersPerCol numbersPerCard;
          centerRow = rows div 2;
          matrix = map (\<lambda>col. matrixCells col centerRow (columnNumbers ! col) 0 [0..<rows])
                     [0..<numbersPerRow]
      in concat (map (\<lambda>row. map (\<lambda>col. matrix ! col ! row) [0..<numbersPerRow]) [0..<rows]))"

text \<open>What a generated column has to satisfy for its target count and its range.\<close>

definition columnOk :: "int \<times> (nat \<times> nat) \<Rightarrow> nat list \<Rightarrow> bool" where
  "columnOk spec col =
     (sorted col \<and> distinct col \<and> int (length col) = fst spec
      \<and> set col \<subseteq> {fst (snd spec)..snd (snd spec)})"

text \<open>Whether a number lies in the range of a column.\<close>

definition inColumn :: "nat \<Rightarrow> nat \<Rightarrow> bool" where
  "inColumn col x = (fst (columnRanges ! col) \<le> x \<and> x \<le> snd (columnRanges ! col))"

text \<open>
  Two runs of \<open>Math.random()\<close> for the examples: the first lets a card of 24 numbers
  return (three of its samples repeat a number of their column and are rejected), the
  second a card of 20 numbers.
\<close>

definition samples24 :: "real list" where
  "samples24 =
     [1/10, 1/2, 1/2, 9/10, 0, 7/10,
      3/10, 1/10, 8/10, 6/10, 99/100,
      1/4, 3/4, 1/4, 0, 1/2,
      2/10, 4/10, 6/10, 8/10, 5/10,
      1/3, 2/3, 1/3, 1/8, 7/8, 1/2]"

definition samples20 :: "real list" where
  "samples20 =
     [1/10, 1/2, 9/10, 0,
      3/10, 1/10, 8/10, 6/10,
      1/4, 3/4, 0, 1/2,
      2/10, 4/10, 6/10, 8/10,
      1/3, 2/3, 1/8, 7/8]"

text \<open>The cards that these two runs produce.\<close>

definition card24 :: cardData where
  "card24 =
     \<lparr> cd_numbers =
         [1, 2, 8, 11, 14, 17, 20, 25, 28, 30, 31, 34, 38, 42, 49, 52, 53, 55, 58, 62, 66,
          68, 71, 74],
       cd_grid =
         [Some 1, Some 17, Some 31, Some 49, Some 62,
          Some 2, Some 20, Some 34, Some 52, Some 66,
          Some 8, Some 25, None, Some 53, Some 68,
          Some 11, Some 28, Some 38, Some 55, Some 71,
          Some 14, Some 30, Some 42, Some 58, Some 74],
       cd_numbersPerRow = 5, cd_numbersPerCol = 5, cd_centerRow = 2, cd_centerCol = 2 \<rparr>"

definition card20 :: cardData where
  "card20 =
     \<lparr> cd_numbers =
         [1, 2, 8, 14, 17, 20, 25, 28, 31, 34, 38, 42, 49, 52, 55, 58, 62, 66, 71, 74],
       cd_grid =
         [Some 1, Some 17, Some 31, Some 49, Some 62,
          Some 2, Some 20, Some 34, Some 52, Some 66,
          Some 8, Some 25, None, Some 55, Some 71,
          Some 14, Some 28, Some 38, Some 58, Some 74,
          None, None, Some 42, None, None],
       cd_numbersPerRow = 5, cd_numbersPerCol = 5, cd_centerRow = 2, cd_centerCol = 2 \<rparr>"

section \<open>Rooms, sessions and the event handlers of server.js\<close>

text \<open>
  Record fields carry a prefix (\<open>p_\<close> participant, \<open>r_\<close> room, \<open>u_\<close> the value stored in
  \<open>users\<close>), since several source names (\<open>id\<close>, \<open>card\<close>, \<open>numbersPerRow\<close>) are constants
  already. Timestamps are the values of \<open>Date.now()\<close>, identifiers the strings of
  \<open>uuidv4()\<close>; both are inputs of the handlers that read them. \<open>r_lastDrawnAt\<close> is
  \<open>None\<close> both before the first draw (the property is absent) and after a reset
  (\<open>null\<close>).
\<close>

record participant =
  p_id :: string
  p_name :: string
  p_card :: "nat list"
  p_cardGrid :: "nat option list"
  p_numbersPerRow :: nat
  p_numbersPerCol :: nat
  p_centerRow :: nat
  p_centerCol :: nat
  p_markedNumbers :: "nat list"
  p_joinedAt :: nat

record room =
  r_id :: string
  r_hostName :: string
  r_numbersPerCard :: nat
  r_drawnNumbers :: "nat list"
  r_lastDrawnAt :: "nat option"
  r_participants :: "string \<rightharpoonup> participant"
  r_createdAt :: nat

record userInfo =
  u_userId :: string
  u_roomId :: string
  u_isHost :: bool

text \<open>The two process-wide maps: \<open>rooms\<close> by room id, \<open>users\<close> by socket id.\<close>

record server =
  rooms :: "string \<rightharpoonup> room"
  users :: "string \<rightharpoonup> userInfo"

text \<open>
  \<open>room.participants\<close> is a plain object (\<open>participants: {}\<close>), so a read
  \<open>room.participants[userId]\<close> that finds no own property continues in
  \<open>Object.prototype\<close>: for a key such as \<open>constructor\<close> it yields an inherited member
  (a function or the prototype object: truthy, and without any of a participant's
  properties), for every other key \<open>undefined\<close>. \<open>rooms\<close> and \<open>users\<close> are \<open>Map\<close>s, whose
  \<open>get\<close> reads own entries only.
\<close>

datatype 'a property = Own 'a | Inherited | Undefined

definition objectPrototypeKeys :: "string list" where
  "objectPrototypeKeys =
     [''constructor'', ''__proto__'', ''hasOwnProperty'', ''isPrototypeOf'',
      ''propertyIsEnumerable'', ''toLocaleString'', ''toString'', ''valueOf'',
      ''__defineGetter__'', ''__defineSetter__'', ''__lookupGetter__'', ''__lookupSetter__'']"

definition getProperty :: "(string \<rightharpoonup> 'a) \<Rightarrow> string \<Rightarrow> 'a property" where
  "getProperty obj key =
     (case obj key of
        Some v \<Rightarrow> Own v
      | None \<Rightarrow> if key \<in> set objectPrototypeKeys then Inherited else Undefined)"

text \<open>
  The messages of the source fall into four classes:
  \<^item> \<open>ValidationError\<close>: the host's or the participant's name is required (HTTP 400);
    the number is not on the card;
  \<^item> \<open>NotFoundError\<close>: room not found (also HTTP 404); participant not found;
  \<^item> \<open>AuthorizationError\<close>: only the host can draw numbers; only the host can restart
    the draw;
  \<^item> \<open>ExhaustedError\<close>: all the numbers have been drawn.
\<close>

datatype error = ValidationError | NotFoundError | AuthorizationError | ExhaustedError

datatype jsError = TypeError

datatype payload =
    ErrorMsg error
  | RoomCreated string room
  | RoomData room
  | Joined string room participant
  | ParticipantJoined participant nat
  | RoomJoined room bool "participant property"
  | NumberDrawn nat "nat list" nat
  | NumberMarked nat "nat list" bool
  | Bingo string string
  | DrawReset room
  | RoomState room bool "participant property"

text \<open>
  What a handler does to the outside, in order: \<open>Emit\<close> is \<open>socket.emit\<close> (to the calling
  connection only), \<open>ToRoom\<close> is \<open>io.to(roomId).emit\<close> (to every connection that joined the
  room), \<open>Subscribe\<close> is \<open>socket.join\<close>, \<open>Respond\<close> is the HTTP response with its status,
  and \<open>Uncaught\<close> is an exception that leaves the handler.
\<close>

datatype out =
    Emit string payload
  | ToRoom string payload
  | Subscribe string string
  | Respond nat payload
  | Uncaught jsError

definition maxNumber :: nat where
  "maxNumber = 75"

subsection \<open>The REST routes\<close>

text \<open>
  \<open>POST /api/rooms\<close>. The name is \<open>None\<close> when the body has none; \<open>!hostName\<close> also holds
  for the empty string. The room id is the first eight characters of the uuid.
\<close>

definition createRoom :: "server \<Rightarrow> string \<Rightarrow> nat \<Rightarrow> string option \<Rightarrow> nat option
    \<Rightarrow> server \<times> out list" where
  "createRoom s uuid now hostName numbersPerCard =
     (if hostName = None \<or> hostName = Some []
      then (s, [Respond 400 (ErrorMsg ValidationError)])
      else
        let roomId = take 8 uuid;
            room = \<lparr> r_id = roomId,
                     r_hostName = the hostName,
                     r_numbersPerCard = (case numbersPerCard of None \<Rightarrow> 24 | Some n \<Rightarrow> n),
                     r_drawnNumbers = [],
                     r_lastDrawnAt = None,
                     r_participants = Map.empty,
                     r_createdAt = now \<rparr>
        in (s\<lparr>rooms := (rooms s)(roomId \<mapsto> room)\<rparr>, [Respond 200 (RoomCreated roomId room)]))"

text \<open>\<open>GET /api/rooms/:roomId\<close>.\<close>

definition getRoom :: "server \<Rightarrow> string \<Rightarrow> server \<times> out list" where
  "getRoom s roomId =
     (case rooms s roomId of
        None \<Rightarrow> (s, [Respond 404 (ErrorMsg NotFoundError)])
      | Some room \<Rightarrow> (s, [Respond 200 (RoomData room)]))"

text \<open>
  \<open>POST /api/rooms/:roomId/join\<close>. The result is \<open>None\<close> when the card generator has not
  returned within the samples.
\<close>

definition joinRoom :: "server \<Rightarrow> string \<Rightarrow> nat \<Rightarrow> real list \<Rightarrow> string \<Rightarrow> string option
    \<Rightarrow> (server \<times> out list) option" where
  "joinRoom s uuid now us roomId participantName =
     (if participantName = None \<or> participantName = Some []
      then Some (s, [Respond 400 (ErrorMsg ValidationError)])
      else
        case rooms s roomId of
          None \<Rightarrow> Some (s, [Respond 404 (ErrorMsg NotFoundError)])
        | Some room \<Rightarrow>
            (case generateBingoCard (r_numbersPerCard room) us of
               None \<Rightarrow> None
             | Some (cardData, us') \<Rightarrow>
                 let userId = uuid;
                     p = \<lparr> p_id = userId,
                           p_name = the participantName,
                           p_card = cd_numbers cardData,
                           p_cardGrid = cd_grid cardData,
                           p_numbersPerRow = cd_numbersPerRow cardData,
                           p_numbersPerCol = cd_numbersPerCol cardData,
                           p_centerRow = cd_centerRow cardData,
                           p_centerCol = cd_centerCol cardData,
                           p_markedNumbers = [],
                           p_joinedAt = now \<rparr>;
                     room' = room\<lparr>r_participants := (r_participants room)(userId \<mapsto> p)\<rparr>
                 in Some (s\<lparr>rooms := (rooms s)(roomId \<mapsto> room')\<rparr>,
                          [ToRoom roomId (ParticipantJoined p (card (dom (r_participants room')))),
                           Respond 200 (Joined userId room' p)])))"

subsection \<open>The socket events\<close>

definition joinAsHost :: "server \<Rightarrow> string \<Rightarrow> string \<Rightarrow> string \<Rightarrow> server \<times> out list" where
  "joinAsHost s socket roomId userId =
     (case rooms s roomId of
        None \<Rightarrow> (s, [Emit socket (ErrorMsg NotFoundError)])
      | Some room \<Rightarrow>
          (s\<lparr>users := (users s)(socket \<mapsto>
                \<lparr> u_userId = userId, u_roomId = roomId, u_isHost = True \<rparr>)\<rparr>,
           [Subscribe socket roomId, Emit socket (RoomJoined room True Undefined)]))"

definition joinAsParticipant :: "server \<Rightarrow> string \<Rightarrow> string \<Rightarrow> string \<Rightarrow> server \<times> out list" where
  "joinAsParticipant s socket roomId userId =
     (case rooms s roomId of
        None \<Rightarrow> (s, [Emit socket (ErrorMsg NotFoundError)])
      | Some room \<Rightarrow>
          (case getProperty (r_participants room) userId of
             Undefined \<Rightarrow> (s, [Emit socket (ErrorMsg NotFoundError)])
           | found \<Rightarrow>
               (s\<lparr>users := (users s)(socket \<mapsto>
                     \<lparr> u_userId = userId, u_roomId = roomId, u_isHost = False \<rparr>)\<rparr>,
                [Subscribe socket roomId, Emit socket (RoomJoined room False found)])))"

text \<open>The \<open>do ... while (room.drawnNumbers.includes(number))\<close> loop of \<open>drawNumber\<close>.\<close>

fun drawLoop :: "nat list \<Rightarrow> real list \<Rightarrow> nat option" where
  "drawLoop drawnNumbers [] = None"
| "drawLoop drawnNumbers (u # us) =
     (let number = nat \<lfloor>u * real maxNumber\<rfloor> + 1 in
      if number \<in> set drawnNumbers then drawLoop drawnNumbers us else Some number)"

text \<open>The result is \<open>None\<close> when the loop has not returned within the samples.\<close>

definition drawNumber :: "server \<Rightarrow> string \<Rightarrow> nat \<Rightarrow> real list \<Rightarrow> string
    \<Rightarrow> (server \<times> out list) option" where
  "drawNumber s socket now us roomId =
     (case users s socket of
        None \<Rightarrow> Some (s, [Emit socket (ErrorMsg AuthorizationError)])
      | Some userInfo \<Rightarrow>
          if \<not> u_isHost userInfo then Some (s, [Emit socket (ErrorMsg AuthorizationError)])
          else
            case rooms s roomId of
              None \<Rightarrow> Some (s, [Emit socket (ErrorMsg NotFoundError)])
            | Some room \<Rightarrow>
                if length (r_drawnNumbers room) \<ge> maxNumber
                then Some (s, [Emit socket (ErrorMsg ExhaustedError)])
                else
                  (case drawLoop (r_drawnNumbers room) us of
                     None \<Rightarrow> None
                   | Some number \<Rightarrow>
                       let drawn = sort (r_drawnNumbers room @ [number]);
                           room' = room\<lparr>r_drawnNumbers := drawn, r_lastDrawnAt := Some now\<rparr>
                       in Some (s\<lparr>rooms := (rooms s)(roomId \<mapsto> room')\<rparr>,
                                [ToRoom roomId (NumberDrawn number drawn (length drawn))])))"

text \<open>
  \<open>markNumber\<close>. \<open>indexOf\<close> with \<open>splice(index, 1)\<close> removes the first occurrence, \<open>push\<close>
  appends. For an inherited member \<open>participant.card\<close> is \<open>undefined\<close>, and the call of
  \<open>includes\<close> on it throws.
\<close>

definition markNumber :: "server \<Rightarrow> string \<Rightarrow> string \<Rightarrow> string \<Rightarrow> nat \<Rightarrow> server \<times> out list" where
  "markNumber s socket roomId userId number =
     (case rooms s roomId of
        None \<Rightarrow> (s, [Emit socket (ErrorMsg NotFoundError)])
      | Some room \<Rightarrow>
          (case getProperty (r_participants room) userId of
             Undefined \<Rightarrow> (s, [Emit socket (ErrorMsg NotFoundError)])
           | Inherited \<Rightarrow> (s, [Uncaught TypeError])
           | Own p \<Rightarrow>
               if number \<notin> set (p_card p)
               then (s, [Emit socket (ErrorMsg ValidationError)])
               else
                 let marked = (if number \<in> set (p_markedNumbers p)
                               then remove1 number (p_markedNumbers p)
                               else p_markedNumbers p @ [number]);
                     p' = p\<lparr>p_markedNumbers := marked\<rparr>;
                     room' = room\<lparr>r_participants := (r_participants room)(userId \<mapsto> p')\<rparr>;
                     hasBingo = (length marked = length (p_card p))
                 in (s\<lparr>rooms := (rooms s)(roomId \<mapsto> room')\<rparr>,
                     Emit socket (NumberMarked number marked hasBingo)
                       # (if hasBingo then [ToRoom roomId (Bingo userId (p_name p))] else []))))"

definition resetDraw :: "server \<Rightarrow> string \<Rightarrow> string \<Rightarrow> server \<times> out list" where
  "resetDraw s socket roomId =
     (case users s socket of
        None \<Rightarrow> (s, [Emit socket (ErrorMsg AuthorizationError)])
      | Some userInfo \<Rightarrow>
          if \<not> u_isHost userInfo then (s, [Emit socket (ErrorMsg AuthorizationError)])
          else
            case rooms s roomId of
              None \<Rightarrow> (s, [Emit socket (ErrorMsg NotFoundError)])
            | Some room \<Rightarrow>
                let room' = room\<lparr> r_drawnNumbers := [],
                                  r_lastDrawnAt := None,
                                  r_participants :=
                                    (\<lambda>userId. map_option (\<lambda>p. p\<lparr>p_markedNumbers := []\<rparr>)
                                       (r_participants room userId)) \<rparr>
                in (s\<lparr>rooms := (rooms s)(roomId \<mapsto> room')\<rparr>, [ToRoom roomId (DrawReset room')]))"

definition getRoomState :: "server \<Rightarrow> string \<Rightarrow> string \<Rightarrow> server \<times> out list" where
  "getRoomState s socket roomId =
     (case rooms s roomId of
        None \<Rightarrow> (s, [Emit socket (ErrorMsg NotFoundError)])
      | Some room \<Rightarrow>
          (case users s socket of
             None \<Rightarrow> (s, [Emit socket (RoomState room False Undefined)])
           | Some userInfo \<Rightarrow>
               (s, [Emit socket (RoomState room (u_isHost userInfo)
                      (if \<not> u_isHost userInfo
                       then getProperty (r_participants room) (u_userId userInfo)
                       else Undefined))])))"

definition disconnect :: "server \<Rightarrow> string \<Rightarrow> server \<times> out list" where
  "disconnect s socket = (s\<lparr>users := (users s)(socket := None)\<rparr>, [])"

subsection \<open>The server as a transition system\<close>

datatype request =
    CreateRoom "string option" "nat option"
  | GetRoom string
  | JoinRoom string "string option"
  | JoinAsHost string string
  | JoinAsParticipant string string
  | DrawNumber string
  | MarkNumber string string nat
  | ResetDraw string
  | GetRoomState string
  | Disconnect

text \<open>What a handler reads from outside the request: a uuid, the clock and the random samples.\<close>

record env =
  e_uuid :: string
  e_now :: nat
  e_samples :: "real list"

fun handle :: "server \<Rightarrow> string \<Rightarrow> env \<Rightarrow> request \<Rightarrow> (server \<times> out list) option" where
  "handle s socket e (CreateRoom hostName numbersPerCard) =
     Some (createRoom s (e_uuid e) (e_now e) hostName numbersPerCard)"
| "handle s socket e (GetRoom roomId) = Some (getRoom s roomId)"
| "handle s socket e (JoinRoom roomId participantName) =
     joinRoom s (e_uuid e) (e_now e) (e_samples e) roomId participantName"
| "handle s socket e (JoinAsHost roomId userId) = Some (joinAsHost s socket roomId userId)"
| "handle s socket e (JoinAsParticipant roomId userId) =
     Some (joinAsParticipant s socket roomId userId)"
| "handle s socket e (DrawNumber roomId) = drawNumber s socket (e_now e) (e_samples e) roomId"
| "handle s socket e (MarkNumber roomId userId number) =
     Some (markNumber s socket roomId userId number)"
| "handle s socket e (ResetDraw roomId) = Some (resetDraw s socket roomId)"
| "handle s socket e (GetRoomState roomId) = Some (getRoomState s socket roomId)"
| "handle s socket e Disconnect = Some (disconnect s socket)"

definition initial :: server where
  "initial = \<lparr> rooms = Map.empty, users = Map.empty \<rparr>"

inductive reachable :: "server \<Rightarrow> bool" where
  start: "reachable initial"
| step: "reachable s \<Longrightarrow> unit_samples (e_samples e) \<Longrightarrow> handle s socket e request = Some (s', outs)
          \<Longrightarrow> reachable s'"

text \<open>
  \<open>draws socket roomId k s s'\<close>: \<open>k\<close> calls of \<open>drawNumber\<close> by \<open>socket\<close> for \<open>roomId\<close>, each
  of which drew a number, lead from \<open>s\<close> to \<open>s'\<close>.
\<close>

inductive draws :: "string \<Rightarrow> string \<Rightarrow> nat \<Rightarrow> server \<Rightarrow> server \<Rightarrow> bool"
  for socket :: string and roomId :: string where
  none: "draws socket roomId 0 s s"
| more: "draws socket roomId k s s' \<Longrightarrow> unit_samples us
          \<Longrightarrow> drawNumber s' socket now us roomId
                = Some (s'', [ToRoom roomId (NumberDrawn number drawn totalDrawn)])
          \<Longrightarrow> draws socket roomId (Suc k) s s''"

text \<open>The invariant of the draw sequence of a room.\<close>

definition drawnNumbersOk :: "nat list \<Rightarrow> bool" where
  "drawnNumbersOk drawn =
     (sorted drawn \<and> distinct drawn \<and> set drawn \<subseteq> {1..75} \<and> length drawn \<le> 75)"

text \<open>
  The invariant of a room: its draw sequence is in order, and every participant's marked
  numbers are card numbers without repetition.
\<close>

definition roomOk :: "room \<Rightarrow> bool" where
  "roomOk room =
     (drawnNumbersOk (r_drawnNumbers room)
      \<and> (\<forall>userId p. r_participants room userId = Some p \<longrightarrow>
            distinct (p_markedNumbers p) \<and> set (p_markedNumbers p) \<subseteq> set (p_card p)))"

definition serverOk :: "server \<Rightarrow> bool" where
  "serverOk s = (\<forall>roomId room. rooms s roomId = Some room \<longrightarrow> roomOk room)"

text \<open>The draw sequences of all rooms are in order.\<close>

definition drawsOk :: "server \<Rightarrow> bool" where
  "drawsOk s = (\<forall>roomId room. rooms s roomId = Some room \<longrightarrow> drawnNumbersOk (r_drawnNumbers room))"

text \<open>An output that carries an error message.\<close>

fun isError :: "out \<Rightarrow> bool" where
  "isError (Emit socket (ErrorMsg err)) = True"
| "isError (ToRoom roomId (ErrorMsg err)) = True"
| "isError (Respond status (ErrorMsg err)) = True"
| "isError other = False"

text \<open>
  How a call that reports an error has to behave: the error is its only output, it goes
  to the caller alone (the calling connection, or the HTTP response), and the state is the
  one before the call.
\<close>

definition errorPath :: "server \<Rightarrow> string \<Rightarrow> server \<Rightarrow> out list \<Rightarrow> bool" where
  "errorPath s socket s' outs =
     ((\<exists>out \<in> set outs. isError out) \<longrightarrow>
        s' = s \<and> (\<exists>err. outs = [Emit socket (ErrorMsg err)]
                    \<or> (\<exists>status. outs = [Respond status (ErrorMsg err)])))"

subsection \<open>A state for the examples\<close>

text \<open>
  One room created by Ana for cards of 24 numbers, in which Bruno holds the card of the
  first run above and has marked two of its numbers; three numbers have been drawn. The
  connection \<open>sockA\<close> joined as host, \<open>sockB\<close> as Bruno.
\<close>

definition bruno :: participant where
  "bruno =
     \<lparr> p_id = ''7f3c'', p_name = ''Bruno'',
       p_card = cd_numbers card24, p_cardGrid = cd_grid card24,
       p_numbersPerRow = 5, p_numbersPerCol = 5, p_centerRow = 2, p_centerCol = 2,
       p_markedNumbers = [8, 25], p_joinedAt = 20 \<rparr>"

definition roomAna :: room where
  "roomAna =
     \<lparr> r_id = ''0a1b2c3d'', r_hostName = ''Ana'', r_numbersPerCard = 24,
       r_drawnNumbers = [8, 25, 40], r_lastDrawnAt = Some 30,
       r_participants = [''7f3c'' \<mapsto> bruno], r_createdAt = 10 \<rparr>"

definition exampleServer :: server where
  "exampleServer =
     \<lparr> rooms = [''0a1b2c3d'' \<mapsto> roomAna],
       users = [''sockA'' \<mapsto> \<lparr> u_userId = ''host'', u_roomId = ''0a1b2c3d'', u_isHost = True \<rparr>,
                ''sockB'' \<mapsto> \<lparr> u_userId = ''7f3c'', u_roomId = ''0a1b2c3d'', u_isHost = False \<rparr>] \<rparr>"

text \<open>
  The same state after a reset of the draw and \<open>k\<close> draws that drew 1, 2, ..., \<open>k\<close> in this
  order, the \<open>i\<close>-th at time \<open>100 + i\<close>.
\<close>

definition exampleServerDrawn :: "nat \<Rightarrow> server" where
  "exampleServerDrawn k =
     exampleServer\<lparr>rooms := [''0a1b2c3d'' \<mapsto>
       roomAna\<lparr> r_drawnNumbers := [1..<Suc k],
                 r_lastDrawnAt := (if k = 0 then None else Some (100 + k)),
                 r_participants := [''7f3c'' \<mapsto> bruno\<lparr>p_markedNumbers := []\<rparr>] \<rparr>]\<rparr>"

text \<open>
  The same room with eight numbers drawn and the given marked numbers of Bruno; 2 and 8
  are on his card.
\<close>

definition exampleMarked :: "nat list \<Rightarrow> server" where
  "exampleMarked marked =
     exampleServer\<lparr>rooms := [''0a1b2c3d'' \<mapsto>
       roomAna\<lparr> r_drawnNumbers := [1..<Suc 8],
                 r_lastDrawnAt := Some 108,
                 r_participants := [''7f3c'' \<mapsto> bruno\<lparr>p_markedNumbers := marked\<rparr>] \<rparr>]\<rparr>"

section \<open>Properties of the card generator\<close>

lemma numbersPerColumn_div: "numbersPerColumn n = int (n div 5)"
  unfolding numbersPerColumn_def numbersPerRow_def
  by (metis floor_divide_of_nat_eq of_nat_numeral)

lemma remainder_lt: "remainder n < 5"
  by (simp add: remainder_def numbersPerRow_def)

lemma upt5: "[0..<5] = [0, 1, 2, 3, 4::nat]"
  by (simp add: upt_rec)

lemma totalTarget_eq: "totalTarget n = int n"
proof -
  have r: "remainder n < 5" by (rule remainder_lt)
  have "n = 5 * (n div 5) + n mod 5" by simp
  then have n: "int n = 5 * int (n div 5) + int (remainder n)"
    unfolding remainder_def numbersPerRow_def by linarith
  from r consider "remainder n = 0" | "remainder n = 1" | "remainder n = 2"
    | "remainder n = 3" | "remainder n = 4" by linarith
  then have "totalTarget n = 5 * int (n div 5) + int (remainder n)"
    by cases
      (simp_all add: totalTarget_def targetCount_def numbersPerRow_def upt5 centerCol_def
        positionInNonCenter_def numbersPerColumn_div)
  with n show ?thesis by simp
qed

lemma targetCounts_eq: "targetCounts n = map (targetCount n) [0..<5]"
  by (simp add: targetCounts_def totalTarget_eq numbersPerRow_def)

lemma sum_targetCounts: "sum_list (targetCounts n) = int n"
  using totalTarget_eq [of n] by (simp add: targetCounts_eq totalTarget_def numbersPerRow_def)

lemma targetCounts_center: "targetCounts n ! centerCol = int (n div 5)"
  by (simp add: targetCounts_eq targetCount_def centerCol_def numbersPerColumn_div)

lemma targetCount_bounds: "int (n div 5) \<le> targetCount n c \<and> targetCount n c \<le> int (n div 5) + 1"
  by (simp add: targetCount_def numbersPerColumn_div)

lemma targetCount_le_15: "n \<le> 75 \<Longrightarrow> targetCount n c \<le> 15"
proof -
  assume n: "n \<le> 75"
  show ?thesis
  proof (cases "n = 75")
    case True
    then show ?thesis
      by (simp add: targetCount_def numbersPerColumn_div remainder_def numbersPerRow_def)
  next
    case False
    with n have "n div 5 \<le> 14" by simp
    with targetCount_bounds [of n c] show ?thesis by linarith
  qed
qed

lemma randomInRange_bounds:
  assumes "0 \<le> u" "u < 1" "lo \<le> hi"
  shows "lo \<le> randomInRange u (lo, hi) \<and> randomInRange u (lo, hi) \<le> hi"
proof -
  let ?k = "hi - lo + 1"
  have "u * real ?k < real ?k" using assms by simp
  then have "\<lfloor>u * real ?k\<rfloor> < int ?k" by (simp add: floor_less_iff)
  then have "nat \<lfloor>u * real ?k\<rfloor> < ?k" by linarith
  with assms(3) show ?thesis by (simp add: randomInRange_def)
qed

lemma randomInRange_hits:
  assumes "lo \<le> v" "v \<le> hi"
  shows "\<exists>u. 0 \<le> u \<and> u < 1 \<and> randomInRange u (lo, hi) = v"
proof -
  let ?k = "hi - lo + 1"
  let ?u = "real (v - lo) / real ?k"
  have "?u * real ?k = real (v - lo)" by simp
  then have "\<lfloor>?u * real ?k\<rfloor> = int (v - lo)" by (simp only: floor_of_nat)
  then have "randomInRange ?u (lo, hi) = v"
    using assms(1) by (simp only: randomInRange_def fst_conv snd_conv nat_int le_add_diff_inverse2)
  moreover have "0 \<le> ?u" by simp
  moreover have "?u < 1" using assms by simp
  ultimately show ?thesis by blast
qed

lemma fillColumn_inv:
  assumes "fillColumn count (lo, hi) numbers used us = Some (ns, us')"
    and "unit_samples us" and "lo \<le> hi"
    and "distinct numbers" and "set numbers = used" and "used \<subseteq> {lo..hi}"
    and "int (length numbers) \<le> count"
  shows "distinct ns \<and> set ns \<subseteq> {lo..hi} \<and> int (length ns) = count \<and> unit_samples us'
    \<and> (\<exists>k. us' = drop k us)"
  using assms
proof (induction us arbitrary: numbers used)
  case Nil
  then show ?case by (auto split: if_splits)
next
  case (Cons u us)
  from Cons.prems(2) have u: "0 \<le> u" "u < 1" and us: "unit_samples us"
    by (simp_all add: unit_samples_def)
  show ?case
  proof (cases "int (length numbers) < count")
    case False
    with Cons.prems show ?thesis by (auto intro: exI [of _ 0])
  next
    case True
    let ?num = "randomInRange u (lo, hi)"
    have rb: "lo \<le> ?num \<and> ?num \<le> hi" using randomInRange_bounds [OF u Cons.prems(3)] .
    show ?thesis
    proof (cases "?num \<in> used")
      case True
      with \<open>int (length numbers) < count\<close> Cons.prems(1)
      have "fillColumn count (lo, hi) numbers used us = Some (ns, us')" by simp
      from Cons.IH [OF this us Cons.prems(3-7)]
      show ?thesis by (auto intro: exI [of _ "Suc k" for k])
    next
      case False
      with \<open>int (length numbers) < count\<close> Cons.prems(1)
      have f: "fillColumn count (lo, hi) (numbers @ [?num]) (insert ?num used) us = Some (ns, us')"
        by (simp add: Let_def)
      have "distinct (numbers @ [?num])" using False Cons.prems(4,5) by simp
      moreover have "set (numbers @ [?num]) = insert ?num used" using Cons.prems(5) by simp
      moreover have "insert ?num used \<subseteq> {lo..hi}" using rb Cons.prems(6) by simp
      moreover have "int (length (numbers @ [?num])) \<le> count"
        using \<open>int (length numbers) < count\<close> by simp
      ultimately show ?thesis
        using Cons.IH [OF f us Cons.prems(3)] by (auto intro: exI [of _ "Suc k" for k])
    qed
  qed
qed

lemma unit_samples_append: "unit_samples (us @ vs) \<longleftrightarrow> unit_samples us \<and> unit_samples vs"
  by (simp add: unit_samples_def)

lemma fillColumn_returns:
  assumes "lo \<le> hi" and "distinct numbers" and "set numbers = used" and "used \<subseteq> {lo..hi}"
    and "count \<le> int (hi - lo + 1)"
  shows "\<exists>us ns. unit_samples us \<and> fillColumn count (lo, hi) numbers used (us @ rest) = Some (ns, rest)"
  using assms(2-4)
proof (induction "nat (count - int (length numbers))" arbitrary: numbers used)
  case 0
  then have "\<not> int (length numbers) < count" by simp
  then have "fillColumn count (lo, hi) numbers used ([] @ rest) = Some (numbers, rest)"
    by (cases rest) simp_all
  moreover have "unit_samples []" by (simp add: unit_samples_def)
  ultimately show ?case by blast
next
  case (Suc m)
  then have lt: "int (length numbers) < count" by linarith
  have "card used = length numbers" using Suc.prems(1,2) distinct_card by blast
  moreover have "card {lo..hi} = hi - lo + 1" using assms(1) by simp
  ultimately have "int (card used) < int (card {lo..hi})" using lt assms(5) by linarith
  then have "card used < card {lo..hi}" by simp
  with Suc.prems(3) have "used \<noteq> {lo..hi}" by auto
  with Suc.prems(3) obtain v where v: "v \<in> {lo..hi}" "v \<notin> used" by blast
  then obtain u where u: "0 \<le> u" "u < 1" "randomInRange u (lo, hi) = v"
    using randomInRange_hits [of lo v hi] by auto
  have m: "m = nat (count - int (length (numbers @ [v])))" using Suc.hyps(2) by simp
  have "distinct (numbers @ [v])" "set (numbers @ [v]) = insert v used" "insert v used \<subseteq> {lo..hi}"
    using Suc.prems v by auto
  from Suc.hyps(1) [OF m this] obtain us ns where
    us: "unit_samples us"
      "fillColumn count (lo, hi) (numbers @ [v]) (insert v used) (us @ rest) = Some (ns, rest)"
    by blast
  have "fillColumn count (lo, hi) numbers used ((u # us) @ rest) = Some (ns, rest)"
    using lt u(3) v(2) us(2) by simp
  moreover have "unit_samples (u # us)" using u us(1) by (simp add: unit_samples_def)
  ultimately show ?case by blast
qed

lemma generateColumns_inv:
  assumes "generateColumns specs us = Some (cols, us')" and "unit_samples us"
    and "\<forall>spec \<in> set specs. 0 \<le> fst spec \<and> fst (snd spec) \<le> snd (snd spec)"
  shows "list_all2 columnOk specs cols \<and> unit_samples us'"
  using assms
proof (induction specs arbitrary: us cols)
  case Nil
  then show ?case by simp
next
  case (Cons spec specs)
  obtain count lo hi where spec: "spec = (count, (lo, hi))" by (metis prod.collapse)
  from Cons.prems(1) obtain numbers us1 rest where
    f: "fillColumn count (lo, hi) [] {} us = Some (numbers, us1)"
    and g: "generateColumns specs us1 = Some (rest, us')"
    and cols: "cols = sort numbers # rest"
    by (auto simp: spec split: option.splits prod.splits)
  from Cons.prems(3) have c: "0 \<le> count" "lo \<le> hi" by (simp_all add: spec)
  from fillColumn_inv [OF f Cons.prems(2) c(2)] c(1)
  have n: "distinct numbers" "set numbers \<subseteq> {lo..hi}" "int (length numbers) = count"
    "unit_samples us1" by simp_all
  from Cons.IH [OF g n(4)] Cons.prems(3)
  have "list_all2 columnOk specs rest \<and> unit_samples us'" by simp
  moreover have "columnOk spec (sort numbers)" using n by (simp add: columnOk_def spec)
  ultimately show ?case by (simp add: cols)
qed

lemma generateColumns_returns:
  assumes "\<forall>spec \<in> set specs. fst (snd spec) \<le> snd (snd spec)
             \<and> fst spec \<le> int (snd (snd spec) - fst (snd spec) + 1)"
  shows "\<exists>us cols. unit_samples us \<and> generateColumns specs (us @ rest) = Some (cols, rest)"
  using assms
proof (induction specs)
  case Nil
  have "unit_samples []" by (simp add: unit_samples_def)
  then show ?case by force
next
  case (Cons spec specs)
  obtain count lo hi where spec: "spec = (count, (lo, hi))" by (metis prod.collapse)
  have "\<forall>spec \<in> set specs. fst (snd spec) \<le> snd (snd spec)
          \<and> fst spec \<le> int (snd (snd spec) - fst (snd spec) + 1)"
    using Cons.prems by (meson list.set_intros(2))
  from Cons.IH [OF this] obtain us2 cols where
    us2: "unit_samples us2" "generateColumns specs (us2 @ rest) = Some (cols, rest)"
    by blast
  from Cons.prems have "lo \<le> hi" "count \<le> int (hi - lo + 1)" by (auto simp: spec)
  from fillColumn_returns [OF this(1) _ _ _ this(2), of "[]" "{}" "us2 @ rest"]
  obtain us1 ns where
    us1: "unit_samples us1" "fillColumn count (lo, hi) [] {} (us1 @ us2 @ rest) = Some (ns, us2 @ rest)"
    by auto
  have "generateColumns (spec # specs) ((us1 @ us2) @ rest) = Some (sort ns # cols, rest)"
    using us1(2) us2(2) by (simp add: spec)
  moreover have "unit_samples (us1 @ us2)" using us1(1) us2(1) by (simp add: unit_samples_append)
  ultimately show ?case by blast
qed

lemma specs_eq:
  "zip (targetCounts n) columnRanges =
     [(targetCount n 0, (1, 15)), (targetCount n 1, (16, 30)), (targetCount n 2, (31, 45)),
      (targetCount n 3, (46, 60)), (targetCount n 4, (61, 75))]"
  by (simp add: targetCounts_eq columnRanges_def upt5)

lemma targetCount_nonneg: "0 \<le> targetCount n c"
  using targetCount_bounds [of n c] by linarith

lemma generateBingoCard_returns:
  assumes "n \<le> 75"
  shows "\<exists>us cd. unit_samples us \<and> generateBingoCard n us = Some (cd, [])"
proof -
  have "\<forall>spec \<in> set (zip (targetCounts n) columnRanges). fst (snd spec) \<le> snd (snd spec)
          \<and> fst spec \<le> int (snd (snd spec) - fst (snd spec) + 1)"
    using targetCount_le_15 [OF assms] by (simp add: specs_eq)
  from generateColumns_returns [OF this, of "[]"] show ?thesis
    by (auto simp: generateBingoCard_def)
qed

lemma generateBingoCard_columns:
  assumes "generateBingoCard n us = Some (cd, us')" and "unit_samples us"
  obtains c0 c1 c2 c3 c4 where
    "generateColumns (zip (targetCounts n) columnRanges) us = Some ([c0, c1, c2, c3, c4], us')"
    "columnOk (targetCount n 0, (1, 15)) c0" "columnOk (targetCount n 1, (16, 30)) c1"
    "columnOk (targetCount n 2, (31, 45)) c2" "columnOk (targetCount n 3, (46, 60)) c3"
    "columnOk (targetCount n 4, (61, 75)) c4"
    "cd_numbers cd = sort (c0 @ c1 @ c2 @ c3 @ c4)"
    "cd_grid cd = buildGrid n [c0, c1, c2, c3, c4]"
proof -
  from assms(1) obtain cols where
    g: "generateColumns (zip (targetCounts n) columnRanges) us = Some (cols, us')"
    and cd: "cd_numbers cd = sort (concat cols)" "cd_grid cd = buildGrid n cols"
    by (auto simp: generateBingoCard_def split: option.splits)
  have "\<forall>spec \<in> set (zip (targetCounts n) columnRanges).
          0 \<le> fst spec \<and> fst (snd spec) \<le> snd (snd spec)"
    by (simp add: specs_eq targetCount_nonneg)
  from generateColumns_inv [OF g assms(2) this]
  have "list_all2 columnOk (zip (targetCounts n) columnRanges) cols" by simp
  then obtain c0 c1 c2 c3 c4 where "cols = [c0, c1, c2, c3, c4]"
    "columnOk (targetCount n 0, (1, 15)) c0" "columnOk (targetCount n 1, (16, 30)) c1"
    "columnOk (targetCount n 2, (31, 45)) c2" "columnOk (targetCount n 3, (46, 60)) c3"
    "columnOk (targetCount n 4, (61, 75)) c4"
    by (auto simp: specs_eq list_all2_Cons1)
  with g cd that show thesis by simp
qed

lemma disjoint_ranges:
  fixes A B :: "nat set"
  assumes "A \<subseteq> {a..b}" "B \<subseteq> {c..d}" "b < c"
  shows "A \<inter> B = {}"
  using assms by fastforce

lemma filter_inside:
  fixes xs :: "nat list"
  assumes "set xs \<subseteq> {lo..hi}"
  shows "filter (\<lambda>x. lo \<le> x \<and> x \<le> hi) xs = xs"
  using assms by (auto simp: filter_id_conv)

lemma filter_outside:
  fixes xs :: "nat list"
  assumes "set xs \<subseteq> {a..b}" "b < lo \<or> hi < a"
  shows "filter (\<lambda>x. lo \<le> x \<and> x \<le> hi) xs = []"
  using assms by (fastforce simp: filter_empty_conv)

lemma inColumn_simps:
  "inColumn 0 = (\<lambda>x. 1 \<le> x \<and> x \<le> 15)" "inColumn (Suc 0) = (\<lambda>x. 16 \<le> x \<and> x \<le> 30)"
  "inColumn 2 = (\<lambda>x. 31 \<le> x \<and> x \<le> 45)" "inColumn 3 = (\<lambda>x. 46 \<le> x \<and> x \<le> 60)"
  "inColumn 4 = (\<lambda>x. 61 \<le> x \<and> x \<le> 75)"
  by (simp_all add: inColumn_def columnRanges_def fun_eq_iff numeral_eq_Suc)



lemma all5: "(\<forall>col<5::nat. P col) \<longleftrightarrow> P 0 \<and> P (Suc 0) \<and> P 2 \<and> P 3 \<and> P 4"
proof -
  have "{..<5::nat} = {0, Suc 0, 2, 3, 4}" by auto
  then have "(\<forall>col\<in>{..<5::nat}. P col) \<longleftrightarrow> (\<forall>col\<in>{0, Suc 0, 2, 3, 4}. P col)"
    by (simp only:)
  moreover have "(\<forall>col<5. P col) \<longleftrightarrow> (\<forall>col\<in>{..<5::nat}. P col)" by blast
  ultimately show ?thesis by simp
qed

lemma five_columns:
  fixes c0 c1 c2 c3 c4 :: "nat list"
  assumes rng: "set c0 \<subseteq> {1..15}" "set c1 \<subseteq> {16..30}" "set c2 \<subseteq> {31..45}"
    "set c3 \<subseteq> {46..60}" "set c4 \<subseteq> {61..75}"
    and dist: "distinct c0" "distinct c1" "distinct c2" "distinct c3" "distinct c4"
  shows "distinct (c0 @ c1 @ c2 @ c3 @ c4)"
    and "set (c0 @ c1 @ c2 @ c3 @ c4) \<subseteq> {1..75}"
proof -
  have d: "set c0 \<inter> set c1 = {}" "set c0 \<inter> set c2 = {}" "set c0 \<inter> set c3 = {}"
    "set c0 \<inter> set c4 = {}" "set c1 \<inter> set c2 = {}" "set c1 \<inter> set c3 = {}"
    "set c1 \<inter> set c4 = {}" "set c2 \<inter> set c3 = {}" "set c2 \<inter> set c4 = {}"
    "set c3 \<inter> set c4 = {}"
    using disjoint_ranges [OF rng(1) rng(2)] disjoint_ranges [OF rng(1) rng(3)]
      disjoint_ranges [OF rng(1) rng(4)] disjoint_ranges [OF rng(1) rng(5)]
      disjoint_ranges [OF rng(2) rng(3)] disjoint_ranges [OF rng(2) rng(4)]
      disjoint_ranges [OF rng(2) rng(5)] disjoint_ranges [OF rng(3) rng(4)]
      disjoint_ranges [OF rng(3) rng(5)] disjoint_ranges [OF rng(4) rng(5)]
    by simp_all
  show "distinct (c0 @ c1 @ c2 @ c3 @ c4)" using dist d by (simp add: Int_Un_distrib)
  have "{1..15} \<subseteq> {1..75::nat}" "{16..30} \<subseteq> {1..75::nat}" "{31..45} \<subseteq> {1..75::nat}"
    "{46..60} \<subseteq> {1..75::nat}" "{61..75} \<subseteq> {1..75::nat}" by simp_all
  with rng have "set c0 \<subseteq> {1..75}" "set c1 \<subseteq> {1..75}" "set c2 \<subseteq> {1..75}"
    "set c3 \<subseteq> {1..75}" "set c4 \<subseteq> {1..75}" by blast+
  then show "set (c0 @ c1 @ c2 @ c3 @ c4) \<subseteq> {1..75}" by simp
qed


lemma five_columns_filter:
  fixes c0 c1 c2 c3 c4 :: "nat list"
  assumes rng: "set c0 \<subseteq> {1..15}" "set c1 \<subseteq> {16..30}" "set c2 \<subseteq> {31..45}"
    "set c3 \<subseteq> {46..60}" "set c4 \<subseteq> {61..75}"
  shows "filter (inColumn 0) (c0 @ c1 @ c2 @ c3 @ c4) = c0"
    and "filter (inColumn (Suc 0)) (c0 @ c1 @ c2 @ c3 @ c4) = c1"
    and "filter (inColumn 2) (c0 @ c1 @ c2 @ c3 @ c4) = c2"
    and "filter (inColumn 3) (c0 @ c1 @ c2 @ c3 @ c4) = c3"
    and "filter (inColumn 4) (c0 @ c1 @ c2 @ c3 @ c4) = c4"
proof -
  show "filter (inColumn 0) (c0 @ c1 @ c2 @ c3 @ c4) = c0"
    using filter_inside [OF rng(1)] filter_outside [OF rng(2), of 1 15]
      filter_outside [OF rng(3), of 1 15] filter_outside [OF rng(4), of 1 15]
      filter_outside [OF rng(5), of 1 15]
    by (simp add: inColumn_simps)
  show "filter (inColumn (Suc 0)) (c0 @ c1 @ c2 @ c3 @ c4) = c1"
    using filter_inside [OF rng(2)] filter_outside [OF rng(1), of 16 30]
      filter_outside [OF rng(3), of 16 30] filter_outside [OF rng(4), of 16 30]
      filter_outside [OF rng(5), of 16 30]
    by (simp add: inColumn_simps)
  show "filter (inColumn 2) (c0 @ c1 @ c2 @ c3 @ c4) = c2"
    using filter_inside [OF rng(3)] filter_outside [OF rng(1), of 31 45]
      filter_outside [OF rng(2), of 31 45] filter_outside [OF rng(4), of 31 45]
      filter_outside [OF rng(5), of 31 45]
    by (simp add: inColumn_simps)
  show "filter (inColumn 3) (c0 @ c1 @ c2 @ c3 @ c4) = c3"
    using filter_inside [OF rng(4)] filter_outside [OF rng(1), of 46 60]
      filter_outside [OF rng(2), of 46 60] filter_outside [OF rng(3), of 46 60]
      filter_outside [OF rng(5), of 46 60]
    by (simp add: inColumn_simps)
  show "filter (inColumn 4) (c0 @ c1 @ c2 @ c3 @ c4) = c4"
    using filter_inside [OF rng(5)] filter_outside [OF rng(1), of 61 75]
      filter_outside [OF rng(2), of 61 75] filter_outside [OF rng(3), of 61 75]
      filter_outside [OF rng(4), of 61 75]
    by (simp add: inColumn_simps)
qed


lemma card_numbers_props:
  assumes "generateBingoCard n us = Some (cd, us')" and "unit_samples us"
  shows "length (cd_numbers cd) = n" and "distinct (cd_numbers cd)" and "sorted (cd_numbers cd)"
    and "set (cd_numbers cd) \<subseteq> {1..75}"
    and "\<forall>col<5. int (length (filter (inColumn col) (cd_numbers cd))) = targetCounts n ! col"
proof -
  obtain c0 c1 c2 c3 c4 where
    "generateColumns (zip (targetCounts n) columnRanges) us = Some ([c0, c1, c2, c3, c4], us')"
    and c: "columnOk (targetCount n 0, (1, 15)) c0" "columnOk (targetCount n 1, (16, 30)) c1"
    "columnOk (targetCount n 2, (31, 45)) c2" "columnOk (targetCount n 3, (46, 60)) c3"
    "columnOk (targetCount n 4, (61, 75)) c4"
    and cd: "cd_numbers cd = sort (c0 @ c1 @ c2 @ c3 @ c4)"
    and "cd_grid cd = buildGrid n [c0, c1, c2, c3, c4]"
    by (rule generateBingoCard_columns [OF assms])
  from c have len: "int (length c0) = targetCount n 0" "int (length c1) = targetCount n 1"
    "int (length c2) = targetCount n 2" "int (length c3) = targetCount n 3"
    "int (length c4) = targetCount n 4"
    and dist: "distinct c0" "distinct c1" "distinct c2" "distinct c3" "distinct c4"
    and rng: "set c0 \<subseteq> {1..15}" "set c1 \<subseteq> {16..30}" "set c2 \<subseteq> {31..45}"
    "set c3 \<subseteq> {46..60}" "set c4 \<subseteq> {61..75}"
    by (simp_all add: columnOk_def)
  have "totalTarget n = targetCount n 0 + targetCount n 1 + targetCount n 2 + targetCount n 3
      + targetCount n 4"
    by (simp add: totalTarget_def numbersPerRow_def upt5)
  also have "\<dots> = int (length (c0 @ c1 @ c2 @ c3 @ c4))"
    unfolding len [symmetric] by simp
  finally have "int (length (cd_numbers cd)) = int n" by (simp add: cd totalTarget_eq)
  then show "length (cd_numbers cd) = n" by simp
  show "distinct (cd_numbers cd)"
    using five_columns(1) [OF rng dist] by (simp only: cd distinct_sort)
  show "sorted (cd_numbers cd)" by (simp only: cd sorted_sort)
  show "set (cd_numbers cd) \<subseteq> {1..75}"
    using five_columns(2) [OF rng dist] by (simp only: cd set_sort)
  have eq: "\<And>col. length (filter (inColumn col) (cd_numbers cd))
      = length (filter (inColumn col) (c0 @ c1 @ c2 @ c3 @ c4))"
    by (simp only: cd filter_sort length_sort)
  show "\<forall>col<5. int (length (filter (inColumn col) (cd_numbers cd))) = targetCounts n ! col"
    unfolding all5 eq five_columns_filter [OF rng] len by (simp add: targetCounts_eq upt5)
qed

lemma numbersPerCol_eq: "numbersPerCol n = n div 5 + 1"
proof -
  have "\<lceil>real (n + 1) / 5\<rceil> = int (n div 5 + 1)"
  proof (rule ceiling_unique)
    have "real (n div 5 + 1) - 1 = real (n div 5)" by simp
    also have "\<dots> \<le> real n / 5" using of_nat_div_le_of_nat [of n 5, where 'a = real] by simp
    also have "\<dots> < real (n + 1) / 5" by simp
    finally show "of_int (int (n div 5 + 1)) - 1 < real (n + 1) / 5" by simp
    have "n + 1 \<le> 5 * (n div 5 + 1)"
      by presburger
    then have "real (n + 1) \<le> real (5 * (n div 5 + 1))" using of_nat_le_iff by blast
    then show "real (n + 1) / 5 \<le> of_int (int (n div 5 + 1))" by simp
  qed
  then show ?thesis by (simp add: numbersPerCol_def numbersPerRow_def)
qed

lemma length_matrixColumn: "length (matrixColumn col cr nums idx rows) = length rows"
  by (induction rows arbitrary: idx) auto

lemma matrixColumn_center:
  assumes "i < length rows" "rows ! i = cr"
  shows "matrixColumn centerCol cr nums idx rows ! i = None"
  using assms
proof (induction rows arbitrary: i idx)
  case Nil
  then show ?case by simp
next
  case (Cons row rows)
  show ?case
  proof (cases i)
    case 0
    with Cons.prems show ?thesis by simp
  next
    case (Suc j)
    with Cons.prems have "j < length rows" "rows ! j = cr" by simp_all
    from Cons.IH [OF this] show ?thesis by (simp add: Suc)
  qed
qed

lemma matrixColumn_contents:
  "Some x \<in> set (matrixColumn col cr nums idx rows) \<Longrightarrow> x \<in> set nums"
  by (induction rows arbitrary: idx) (auto split: if_splits)

text \<open>The number of empty cells of a column.\<close>

lemma nulls_arith:
  fixes L m k d :: nat
  assumes "d \<le> L"
  shows "k < m \<Longrightarrow> L - min (m - (k + 1)) (L - d) = Suc L - min (m - k) (Suc L - d)"
    and "\<not> k < m \<Longrightarrow> Suc (L - min (m - k) (L - d)) = Suc L - min (m - k) (Suc L - d)"
  using assms by linarith+

lemma matrixColumn_nulls:
  assumes "distinct rows"
  shows "length (filter (\<lambda>c. c = None) (matrixColumn col cr nums idx rows))
    = length rows - min (length nums - idx)
        (length rows - (if col = centerCol \<and> cr \<in> set rows then 1 else 0))"
  using assms
proof (induction rows arbitrary: idx)
  case Nil
  then show ?case by simp
next
  case (Cons row rows)
  then have IH: "\<And>idx. length (filter (\<lambda>c. c = None) (matrixColumn col cr nums idx rows))
    = length rows - min (length nums - idx)
        (length rows - (if col = centerCol \<and> cr \<in> set rows then 1 else 0))"
    and nin: "row \<notin> set rows" by simp_all
  show ?case
  proof (cases "row = cr \<and> col = centerCol")
    case True
    with nin have "\<not> (col = centerCol \<and> cr \<in> set rows)" by simp
    with True IH [of idx] show ?thesis by (auto simp: min_def)
  next
    case False
    define d :: nat where "d = (if col = centerCol \<and> cr \<in> set rows then 1 else 0)"
    have eq: "(if col = centerCol \<and> cr \<in> set (row # rows) then 1 else 0) = d"
      using False by (auto simp: d_def)
    have dL: "d \<le> length rows" by (cases rows) (simp_all add: d_def)
    have IH': "\<And>idx. length (filter (\<lambda>c. c = None) (matrixColumn col cr nums idx rows))
      = length rows - min (length nums - idx) (length rows - d)"
      using IH by (simp add: d_def)
    show ?thesis
    proof (cases "idx < length nums")
      case True
      have "length (filter (\<lambda>c. c = None) (matrixColumn col cr nums idx (row # rows)))
        = length rows - min (length nums - (idx + 1)) (length rows - d)"
        using False True IH' [of "idx + 1"] by auto
      also have "\<dots> = length (row # rows) - min (length nums - idx) (length (row # rows) - d)"
        using nulls_arith(1) [OF dL True] by simp
      finally show ?thesis unfolding eq .
    next
      case F: False
      have "length (filter (\<lambda>c. c = None) (matrixColumn col cr nums idx (row # rows)))
        = Suc (length rows - min (length nums - idx) (length rows - d))"
        using False F IH' [of idx] by auto
      also have "\<dots> = length (row # rows) - min (length nums - idx) (length (row # rows) - d)"
        using nulls_arith(2) [OF dL F] by simp
      finally show ?thesis unfolding eq .
    qed
  qed
qed

lemma filter_nth_upt:
  "length (filter (\<lambda>i. P (xs ! i)) [0..<length xs]) = length (filter P xs)"
proof -
  have "filter P xs = filter P (map (\<lambda>i. xs ! i) [0..<length xs])" by (simp add: map_nth)
  also have "\<dots> = map (\<lambda>i. xs ! i) (filter (\<lambda>i. P (xs ! i)) [0..<length xs])"
    by (simp add: filter_map o_def)
  finally show ?thesis by simp
qed

lemma filter_rows_of_five:
  "length (filter P (concat (map (\<lambda>row. [f0 row, f1 row, f2 row, f3 row, f4 row]) rs)))
    = length (filter (\<lambda>row. P (f0 row)) rs) + length (filter (\<lambda>row. P (f1 row)) rs)
      + length (filter (\<lambda>row. P (f2 row)) rs) + length (filter (\<lambda>row. P (f3 row)) rs)
      + length (filter (\<lambda>row. P (f4 row)) rs)"
  by (induction rs) simp_all

lemma length_rows_of_five:
  "length (concat (map (\<lambda>row. [f0 row, f1 row, f2 row, f3 row, f4 row]) rs)) = 5 * length rs"
  by (induction rs) simp_all

lemma nth_rows_of_five:
  assumes "r < k" "c < 5"
  shows "concat (map (\<lambda>row. [f0 row, f1 row, f2 row, f3 row, f4 row]) [0..<k]) ! (r * 5 + c)
    = [f0 r, f1 r, f2 r, f3 r, f4 r] ! c"
  using assms(1)
proof (induction k)
  case 0
  then show ?case by simp
next
  case (Suc k)
  let ?g = "\<lambda>row. [f0 row, f1 row, f2 row, f3 row, f4 row]"
  have len: "length (concat (map ?g [0..<k])) = 5 * k" by (simp add: length_rows_of_five)
  show ?case
  proof (cases "r < k")
    case True
    then have "r * 5 + c < 5 * k" using assms(2) by linarith
    with Suc.IH [OF True] len show ?thesis by (simp add: nth_append)
  next
    case False
    with Suc.prems have "r = k" by simp
    then have "r * 5 + c - 5 * k = c" "\<not> r * 5 + c < 5 * k" by simp_all
    with len show ?thesis by (simp add: nth_append \<open>r = k\<close>)
  qed
qed

text \<open>The grid in terms of its five matrix columns.\<close>

lemma buildGrid_eq:
  "buildGrid n cols =
     concat (map (\<lambda>row.
        [matrixColumn 0 (numbersPerCol n div 2) (cols ! 0) 0 [0..<numbersPerCol n] ! row,
         matrixColumn 1 (numbersPerCol n div 2) (cols ! 1) 0 [0..<numbersPerCol n] ! row,
         matrixColumn 2 (numbersPerCol n div 2) (cols ! 2) 0 [0..<numbersPerCol n] ! row,
         matrixColumn 3 (numbersPerCol n div 2) (cols ! 3) 0 [0..<numbersPerCol n] ! row,
         matrixColumn 4 (numbersPerCol n div 2) (cols ! 4) 0 [0..<numbersPerCol n] ! row])
       [0..<numbersPerCol n])"
  by (simp add: buildGrid_def Let_def numbersPerRow_def upt5)

lemma length_buildGrid: "length (buildGrid n cols) = 5 * numbersPerCol n"
  by (simp only: buildGrid_eq length_rows_of_five length_upt diff_zero)

lemma buildGrid_center: "buildGrid n cols ! (numbersPerCol n div 2 * 5 + centerCol) = None"
proof -
  have r: "numbersPerCol n div 2 < numbersPerCol n" by (simp add: numbersPerCol_eq)
  have c: "centerCol < 5" by (simp add: centerCol_def)
  have "matrixColumn centerCol (numbersPerCol n div 2) (cols ! 2) 0 [0..<numbersPerCol n]
      ! (numbersPerCol n div 2) = None"
    using r by (intro matrixColumn_center) simp_all
  then show ?thesis
    unfolding buildGrid_eq nth_rows_of_five [OF r c] by (simp add: centerCol_def)
qed

lemma buildGrid_nulls:
  assumes "length c0 \<le> numbersPerCol n" "length c1 \<le> numbersPerCol n"
    "length c2 < numbersPerCol n" "length c3 \<le> numbersPerCol n" "length c4 \<le> numbersPerCol n"
  shows "length (filter (\<lambda>c. c = None) (buildGrid n [c0, c1, c2, c3, c4]))
    = 5 * numbersPerCol n - (length c0 + length c1 + length c2 + length c3 + length c4)"
proof -
  let ?R = "numbersPerCol n"
  let ?M = "\<lambda>col nums. matrixColumn col (?R div 2) nums 0 [0..<?R]"
  have r: "?R div 2 < ?R" by (simp add: numbersPerCol_eq)
  have col: "\<And>col nums. length (filter (\<lambda>row. ?M col nums ! row = None) [0..<?R])
      = length (filter (\<lambda>c. c = None) (?M col nums))"
    using filter_nth_upt [of "\<lambda>c. c = None" "?M col nums" for col nums]
    by (simp add: length_matrixColumn)
  have nulls: "\<And>col nums. length (filter (\<lambda>c. c = None) (?M col nums))
      = ?R - min (length nums) (?R - (if col = centerCol then 1 else 0))"
    using r by (simp add: matrixColumn_nulls)
  have "length (filter (\<lambda>c. c = None) (buildGrid n [c0, c1, c2, c3, c4]))
      = (?R - length c0) + (?R - length c1) + (?R - length c2) + (?R - length c3) + (?R - length c4)"
    unfolding buildGrid_eq filter_rows_of_five using assms
    by (simp add: col nulls centerCol_def min_def)
  also have "\<dots> = 5 * ?R - (length c0 + length c1 + length c2 + length c3 + length c4)"
    using assms by linarith
  finally show ?thesis .
qed

lemma grid_cell_column:
  assumes "generateBingoCard n us = Some (cd, us')" and "unit_samples us"
    and "row < cd_numbersPerCol cd" and "col < 5" and "cd_grid cd ! (row * 5 + col) = Some x"
  shows "inColumn col x \<and> x \<in> set (cd_numbers cd)"
proof -
  obtain c0 c1 c2 c3 c4 where
    "generateColumns (zip (targetCounts n) columnRanges) us = Some ([c0, c1, c2, c3, c4], us')"
    and c: "columnOk (targetCount n 0, (1, 15)) c0" "columnOk (targetCount n 1, (16, 30)) c1"
    "columnOk (targetCount n 2, (31, 45)) c2" "columnOk (targetCount n 3, (46, 60)) c3"
    "columnOk (targetCount n 4, (61, 75)) c4"
    and cd: "cd_numbers cd = sort (c0 @ c1 @ c2 @ c3 @ c4)"
    and grid: "cd_grid cd = buildGrid n [c0, c1, c2, c3, c4]"
    by (rule generateBingoCard_columns [OF assms(1,2)])
  from c have rng: "set c0 \<subseteq> {1..15}" "set c1 \<subseteq> {16..30}" "set c2 \<subseteq> {31..45}"
    "set c3 \<subseteq> {46..60}" "set c4 \<subseteq> {61..75}"
    by (simp_all add: columnOk_def)
  let ?R = "numbersPerCol n"
  let ?M = "\<lambda>col nums. matrixColumn col (?R div 2) nums 0 [0..<?R]"
  from assms(1) have R: "cd_numbersPerCol cd = ?R"
    by (auto simp: generateBingoCard_def split: option.splits)
  with assms(3) have row: "row < ?R" by simp
  have mem: "\<And>k nums. ?M k nums ! row = Some x \<Longrightarrow> x \<in> set nums"
  proof -
    fix k nums assume a: "?M k nums ! row = Some x"
    have "row < length (?M k nums)" using row by (simp add: length_matrixColumn)
    then have "?M k nums ! row \<in> set (?M k nums)" by (rule nth_mem)
    with a show "x \<in> set nums" by (simp add: matrixColumn_contents)
  qed
  from assms(5) have cell: "[?M 0 c0 ! row, ?M 1 c1 ! row, ?M 2 c2 ! row, ?M 3 c3 ! row,
      ?M 4 c4 ! row] ! col = Some x"
    unfolding grid buildGrid_eq nth_rows_of_five [OF row assms(4)] by simp
  from assms(4) consider "col = 0" | "col = Suc 0" | "col = 2" | "col = 3" | "col = 4"
    by linarith
  then have "inColumn col x \<and> x \<in> set (c0 @ c1 @ c2 @ c3 @ c4)"
  proof cases
    case 1
    with cell have "x \<in> set c0" using mem [of 0 c0] by simp
    with rng(1) 1 show ?thesis by (auto simp: inColumn_simps)
  next
    case 2
    with cell have "x \<in> set c1" using mem [of 1 c1] by simp
    with rng(2) 2 show ?thesis by (auto simp: inColumn_simps)
  next
    case 3
    with cell have "x \<in> set c2" using mem [of 2 c2] by simp
    with rng(3) 3 show ?thesis by (auto simp: inColumn_simps)
  next
    case 4
    with cell have "x \<in> set c3" using mem [of 3 c3] by simp
    with rng(4) 4 show ?thesis by (auto simp: inColumn_simps)
  next
    case 5
    with cell have "x \<in> set c4" using mem [of 4 c4] by simp
    with rng(5) 5 show ?thesis by (auto simp: inColumn_simps)
  qed
  then show ?thesis by (simp only: cd set_sort)
qed

lemma count_list_None: "count_list xs None = length (filter (\<lambda>c. c = None) xs)"
  by (induction xs) simp_all

lemma grid_props:
  assumes "generateBingoCard n us = Some (cd, us')" and "unit_samples us"
  shows "cd_numbersPerRow cd = 5" and "cd_numbersPerCol cd = numbersPerCol n"
    and "cd_centerRow cd = numbersPerCol n div 2" and "cd_centerCol cd = 2"
    and "length (cd_grid cd) = numbersPerCol n * 5"
    and "cd_grid cd ! (cd_centerRow cd * 5 + cd_centerCol cd) = None"
    and "count_list (cd_grid cd) None = 5 * numbersPerCol n - n"
proof -
  obtain c0 c1 c2 c3 c4 where
    "generateColumns (zip (targetCounts n) columnRanges) us = Some ([c0, c1, c2, c3, c4], us')"
    and c: "columnOk (targetCount n 0, (1, 15)) c0" "columnOk (targetCount n 1, (16, 30)) c1"
    "columnOk (targetCount n 2, (31, 45)) c2" "columnOk (targetCount n 3, (46, 60)) c3"
    "columnOk (targetCount n 4, (61, 75)) c4"
    and cd: "cd_numbers cd = sort (c0 @ c1 @ c2 @ c3 @ c4)"
    and grid: "cd_grid cd = buildGrid n [c0, c1, c2, c3, c4]"
    by (rule generateBingoCard_columns [OF assms(1,2)])
  from assms(1) show m: "cd_numbersPerRow cd = 5" "cd_numbersPerCol cd = numbersPerCol n"
    "cd_centerRow cd = numbersPerCol n div 2" "cd_centerCol cd = 2"
    by (auto simp: generateBingoCard_def numbersPerRow_def centerCol_def split: option.splits)
  show "length (cd_grid cd) = numbersPerCol n * 5" by (simp add: grid length_buildGrid)
  show "cd_grid cd ! (cd_centerRow cd * 5 + cd_centerCol cd) = None"
    using buildGrid_center [of n "[c0, c1, c2, c3, c4]"] by (simp add: grid m centerCol_def)
  from c have len: "int (length c0) = targetCount n 0" "int (length c1) = targetCount n 1"
    "int (length c2) = targetCount n 2" "int (length c3) = targetCount n 3"
    "int (length c4) = targetCount n 4"
    by (simp_all add: columnOk_def)
  have R: "int (numbersPerCol n) = int (n div 5) + 1" by (simp add: numbersPerCol_eq)
  have le: "length c0 \<le> numbersPerCol n" "length c1 \<le> numbersPerCol n"
    "length c3 \<le> numbersPerCol n" "length c4 \<le> numbersPerCol n"
    using len R targetCount_bounds [of n 0] targetCount_bounds [of n 1]
      targetCount_bounds [of n 3] targetCount_bounds [of n 4] by linarith+
  have "targetCount n 2 = int (n div 5)"
    by (simp add: targetCount_def centerCol_def numbersPerColumn_div)
  with len(3) R have lt: "length c2 < numbersPerCol n" by linarith
  have "length (cd_numbers cd) = n" using card_numbers_props(1) [OF assms] .
  then have total: "length c0 + length c1 + length c2 + length c3 + length c4 = n"
    by (simp add: cd)
  show "count_list (cd_grid cd) None = 5 * numbersPerCol n - n"
    unfolding count_list_None grid buildGrid_nulls [OF le(1,2) lt le(3,4)] total ..
qed

lemmas generator_defs = generateBingoCard_def targetCounts_eq upt5 targetCount_def
  numbersPerColumn_div remainder_def numbersPerRow_def centerCol_def positionInNonCenter_def
  columnRanges_def randomInRange_def buildGrid_def numbersPerCol_eq

lemma run24: "generateBingoCard 24 samples24 = Some (card24, [])"
  by (simp add: generator_defs samples24_def card24_def upt_rec)

lemma run20: "generateBingoCard 20 samples20 = Some (card20, [])"
  by (simp add: generator_defs samples20_def card20_def upt_rec)

lemma unit_samples24: "unit_samples samples24"
  by (simp add: unit_samples_def samples24_def)

lemma unit_samples20: "unit_samples samples20"
  by (simp add: unit_samples_def samples20_def)

text \<open>
  A column whose target count exceeds the size of its range is never filled: the loop of
  \<open>fillColumn\<close> does not return, whatever the samples. This is the case of the first
  column for every card size above 75.
\<close>

lemma fillColumn_never:
  assumes "unit_samples us" and "lo \<le> hi" and "distinct numbers" and "set numbers = used"
    and "used \<subseteq> {lo..hi}" and "int (hi - lo + 1) < count"
  shows "fillColumn count (lo, hi) numbers used us = None"
  using assms(1,3,4,5)
proof (induction us arbitrary: numbers used)
  case Nil
  have "card used \<le> card {lo..hi}" using Nil.prems(4) by (intro card_mono) simp_all
  moreover have "card used = length numbers" using Nil.prems(2,3) distinct_card by blast
  ultimately have "int (length numbers) < count" using assms(2,6) by simp
  then show ?case by simp
next
  case (Cons u us)
  from Cons.prems(1) have u: "0 \<le> u" "u < 1" and us: "unit_samples us"
    by (simp_all add: unit_samples_def)
  have "card used \<le> card {lo..hi}" using Cons.prems(4) by (intro card_mono) simp_all
  moreover have "card used = length numbers" using Cons.prems(2,3) distinct_card by blast
  ultimately have lt: "int (length numbers) < count" using assms(2,6) by simp
  let ?num = "randomInRange u (lo, hi)"
  have rb: "lo \<le> ?num \<and> ?num \<le> hi" using randomInRange_bounds [OF u assms(2)] .
  show ?case
  proof (cases "?num \<in> used")
    case True
    with lt Cons.IH [OF us Cons.prems(2-4)] show ?thesis by simp
  next
    case False
    have "distinct (numbers @ [?num])" using False Cons.prems(2,3) by simp
    moreover have "set (numbers @ [?num]) = insert ?num used" using Cons.prems(3) by simp
    moreover have "insert ?num used \<subseteq> {lo..hi}" using rb Cons.prems(4) by simp
    ultimately have "fillColumn count (lo, hi) (numbers @ [?num]) (insert ?num used) us = None"
      by (rule Cons.IH [OF us])
    with lt False show ?thesis by (simp add: Let_def)
  qed
qed

lemma generateBingoCard_too_large:
  assumes "75 < n" and "unit_samples us"
  shows "generateBingoCard n us = None"
proof -
  have "15 < targetCount n 0"
  proof (cases "n div 5 = 15")
    case True
    with assms(1) have "0 < n mod 5" by presburger
    with True show ?thesis
      by (simp add: targetCount_def numbersPerColumn_div remainder_def numbersPerRow_def
          centerCol_def positionInNonCenter_def)
  next
    case False
    with assms(1) have "15 < n div 5" by presburger
    with targetCount_bounds [of n 0] show ?thesis by linarith
  qed
  then have "int (15 - 1 + 1) < targetCount n 0" by simp
  from fillColumn_never [OF assms(2) _ _ _ _ this, of "[]" "{}"]
  have "fillColumn (targetCount n 0) (1, 15) [] {} us = None" by simp
  then show ?thesis by (simp add: generateBingoCard_def specs_eq)
qed

text \<open>
  C1. For every card size of at most 75 (the sizes whose columns fit their ranges of 15
  numbers) some run of the random source lets \<open>generateBingoCard\<close> return, and whenever it
  returns, the flat number list has exactly \<open>size\<close> elements, pairwise distinct, all in
  1..75, of which as many lie in the range of a column as that column's target count; a
  number in a grid cell lies in the range of the cell's column and is one of the flat
  numbers. The target counts add up to \<open>size\<close> (the adjustment of the last column included),
  and the centre column's count is \<open>floor(size / 5)\<close>.
\<close>

theorem generateBingoCard_flatNumbers:
  assumes "n \<le> 75"
  shows "(\<exists>us cd. unit_samples us \<and> generateBingoCard n us = Some (cd, []))
    \<and> (\<forall>us cd us'. unit_samples us \<longrightarrow> generateBingoCard n us = Some (cd, us') \<longrightarrow>
          length (cd_numbers cd) = n \<and> distinct (cd_numbers cd)
          \<and> set (cd_numbers cd) \<subseteq> {1..75}
          \<and> (\<forall>col<5. int (length (filter (inColumn col) (cd_numbers cd))) = targetCounts n ! col)
          \<and> (\<forall>row col x. row < cd_numbersPerCol cd \<longrightarrow> col < 5 \<longrightarrow>
                cd_grid cd ! (row * 5 + col) = Some x \<longrightarrow>
                inColumn col x \<and> x \<in> set (cd_numbers cd)))
    \<and> sum_list (targetCounts n) = int n
    \<and> targetCounts n ! centerCol = \<lfloor>real n / 5\<rfloor>"
proof (intro conjI allI impI)
  show "\<exists>us cd. unit_samples us \<and> generateBingoCard n us = Some (cd, [])"
    using assms by (rule generateBingoCard_returns)
  show "sum_list (targetCounts n) = int n" by (rule sum_targetCounts)
  show "targetCounts n ! centerCol = \<lfloor>real n / 5\<rfloor>"
    using targetCounts_center [of n] numbersPerColumn_div [of n]
    by (simp add: numbersPerColumn_def numbersPerRow_def)
next
  fix us cd us'
  assume a: "unit_samples us" "generateBingoCard n us = Some (cd, us')"
  show "length (cd_numbers cd) = n" using card_numbers_props(1) [OF a(2,1)] .
  show "distinct (cd_numbers cd)" using card_numbers_props(2) [OF a(2,1)] .
  show "set (cd_numbers cd) \<subseteq> {1..75}" using card_numbers_props(4) [OF a(2,1)] .
  {
    fix col :: nat assume "col < 5"
    then show "int (length (filter (inColumn col) (cd_numbers cd))) = targetCounts n ! col"
      using card_numbers_props(5) [OF a(2,1)] by blast
  }
  {
    fix row col x
    assume "row < cd_numbersPerCol cd" "col < 5" "cd_grid cd ! (row * 5 + col) = Some x"
    then show "inColumn col x" "x \<in> set (cd_numbers cd)"
      using grid_cell_column [OF a(2,1)] by blast+
  }
qed

theorem generateBingoCard_flatNumbers_witness:
  "(24::nat) \<le> 75 \<and> unit_samples samples24
    \<and> generateBingoCard 24 samples24 = Some (card24, [])
    \<and> length (cd_numbers card24) = 24 \<and> distinct (cd_numbers card24)
    \<and> set (cd_numbers card24) \<subseteq> {1..75}
    \<and> int (length (filter (inColumn 2) (cd_numbers card24))) = targetCounts 24 ! 2
    \<and> inColumn 3 53 \<and> cd_grid card24 ! (2 * 5 + 3) = Some 53
    \<and> sum_list (targetCounts 24) = 24 \<and> targetCounts 24 ! centerCol = 4"
proof -
  have h: "(24::nat) \<le> 75" by simp
  have cell: "cd_grid card24 ! (2 * 5 + 3) = Some 53" by (simp add: card24_def)
  have row: "(2::nat) < cd_numbersPerCol card24" by (simp add: card24_def)
  from generateBingoCard_flatNumbers [OF h]
  have props: "length (cd_numbers card24) = 24 \<and> distinct (cd_numbers card24)
      \<and> set (cd_numbers card24) \<subseteq> {1..75}
      \<and> (\<forall>col<5. int (length (filter (inColumn col) (cd_numbers card24))) = targetCounts 24 ! col)
      \<and> (\<forall>row col x. row < cd_numbersPerCol card24 \<longrightarrow> col < 5 \<longrightarrow>
            cd_grid card24 ! (row * 5 + col) = Some x \<longrightarrow>
            inColumn col x \<and> x \<in> set (cd_numbers card24))"
    and tc: "sum_list (targetCounts 24) = int 24" "targetCounts 24 ! centerCol = \<lfloor>real 24 / 5\<rfloor>"
    using unit_samples24 run24 by blast+
  have col: "(3::nat) < 5" by simp
  from props row col cell have "inColumn 3 53" by blast
  moreover from props have "int (length (filter (inColumn 2) (cd_numbers card24))) = targetCounts 24 ! 2"
    by simp
  ultimately show ?thesis using h props tc cell unit_samples24 run24 by simp
qed


lemma cellValue_matrixCells:
  "map cellValue (matrixCells col cr nums idx rows) = matrixColumn col cr nums idx rows"
  by (induction rows arbitrary: idx) auto

lemma length_matrixCells: "length (matrixCells col cr nums idx rows) = length rows"
  by (induction rows arbitrary: idx) auto

lemma cellValue_nth_matrixCells:
  assumes "row < length rows"
  shows "cellValue (matrixCells col cr nums idx rows ! row) = matrixColumn col cr nums idx rows ! row"
proof -
  have "matrixColumn col cr nums idx rows ! row
      = map cellValue (matrixCells col cr nums idx rows) ! row"
    by (simp only: cellValue_matrixCells)
  also have "\<dots> = cellValue (matrixCells col cr nums idx rows ! row)"
    using assms by (simp add: length_matrixCells)
  finally show ?thesis by simp
qed

lemma gridCells_eq:
  "gridCells n cols =
     concat (map (\<lambda>row.
        [matrixCells 0 (numbersPerCol n div 2) (cols ! 0) 0 [0..<numbersPerCol n] ! row,
         matrixCells 1 (numbersPerCol n div 2) (cols ! 1) 0 [0..<numbersPerCol n] ! row,
         matrixCells 2 (numbersPerCol n div 2) (cols ! 2) 0 [0..<numbersPerCol n] ! row,
         matrixCells 3 (numbersPerCol n div 2) (cols ! 3) 0 [0..<numbersPerCol n] ! row,
         matrixCells 4 (numbersPerCol n div 2) (cols ! 4) 0 [0..<numbersPerCol n] ! row])
       [0..<numbersPerCol n])"
  by (simp add: gridCells_def Let_def numbersPerRow_def upt5)

text \<open>The stored grid is the tagged grid with the tags forgotten.\<close>

lemma cellValue_gridCells: "map cellValue (gridCells n cols) = buildGrid n cols"
  unfolding gridCells_eq buildGrid_eq map_concat map_map
  by (rule arg_cong [where f = concat], rule map_cong)
    (simp_all add: cellValue_nth_matrixCells)

lemma matrixCells_center:
  assumes "i < length rows" "rows ! i = cr"
  shows "matrixCells centerCol cr nums idx rows ! i = Free"
  using assms
proof (induction rows arbitrary: i idx)
  case Nil
  then show ?case by simp
next
  case (Cons row rows)
  show ?case
  proof (cases i)
    case 0
    with Cons.prems show ?thesis by simp
  next
    case (Suc j)
    with Cons.prems have "j < length rows" "rows ! j = cr" by simp_all
    from Cons.IH [OF this] show ?thesis by (simp add: Suc)
  qed
qed

text \<open>A column holds a free cell only if it is the centre column, and then one.\<close>

lemma matrixCells_free:
  assumes "distinct rows"
  shows "length (filter (\<lambda>c. c = Free) (matrixCells col cr nums idx rows))
    = (if col = centerCol \<and> cr \<in> set rows then 1 else 0)"
  using assms by (induction rows arbitrary: idx) auto

lemma count_list_filter: "count_list xs y = length (filter (\<lambda>c. c = y) xs)"
  by (induction xs) simp_all

lemma gridCells_center: "gridCells n cols ! (numbersPerCol n div 2 * 5 + centerCol) = Free"
proof -
  have r: "numbersPerCol n div 2 < numbersPerCol n" by (simp add: numbersPerCol_eq)
  have c: "centerCol < 5" by (simp add: centerCol_def)
  have "matrixCells centerCol (numbersPerCol n div 2) (cols ! 2) 0 [0..<numbersPerCol n]
      ! (numbersPerCol n div 2) = Free"
    using r by (intro matrixCells_center) simp_all
  then show ?thesis
    unfolding gridCells_eq nth_rows_of_five [OF r c] by (simp add: centerCol_def)
qed

lemma gridCells_free: "count_list (gridCells n cols) Free = 1"
proof -
  let ?R = "numbersPerCol n"
  let ?M = "\<lambda>col nums. matrixCells col (?R div 2) nums 0 [0..<?R]"
  have r: "?R div 2 < ?R" by (simp add: numbersPerCol_eq)
  have col: "\<And>col nums. length (filter (\<lambda>row. ?M col nums ! row = Free) [0..<?R])
      = length (filter (\<lambda>c. c = Free) (?M col nums))"
    using filter_nth_upt [of "\<lambda>c. c = Free" "?M col nums" for col nums]
    by (simp add: length_matrixCells)
  have free: "\<And>col nums. length (filter (\<lambda>c. c = Free) (?M col nums))
      = (if col = centerCol then 1 else 0)"
    using r by (simp add: matrixCells_free)
  show ?thesis
    unfolding count_list_filter gridCells_eq filter_rows_of_five
    by (simp add: col free centerCol_def)
qed

text \<open>
  C3. For every size of at most 75 some run lets \<open>generateBingoCard\<close> return, and
  whenever it returns (for any size), the grid has \<open>ceil((size + 1) / 5)\<close> rows of 5
  cells, the centre row is \<open>floor(rows / 2)\<close>, the centre column is 2, and the grid is the
  tagged grid of the generated columns with the tags forgotten; the tagged grid has
  exactly one free cell, and it is the cell at (centre row, centre column). (A cell
  beyond the numbers of its column is empty, not free; both are stored as \<open>null\<close>.)
\<close>

theorem generateBingoCard_grid:
  "(n \<le> 75 \<longrightarrow> (\<exists>us cd. unit_samples us \<and> generateBingoCard n us = Some (cd, [])))
    \<and> (generateBingoCard n us = Some (cd, us') \<longrightarrow>
          cd_numbersPerRow cd = 5
          \<and> int (cd_numbersPerCol cd) = \<lceil>real (n + 1) / 5\<rceil>
          \<and> length (cd_grid cd) = cd_numbersPerCol cd * 5
          \<and> cd_centerRow cd = cd_numbersPerCol cd div 2
          \<and> cd_centerCol cd = 2
          \<and> (\<exists>columnNumbers.
                generateColumns (zip (targetCounts n) columnRanges) us = Some (columnNumbers, us')
                \<and> cd_grid cd = map cellValue (gridCells n columnNumbers)
                \<and> count_list (gridCells n columnNumbers) Free = 1
                \<and> gridCells n columnNumbers ! (cd_centerRow cd * 5 + cd_centerCol cd) = Free))"
proof (intro conjI impI)
  assume "n \<le> 75"
  then show "\<exists>us cd. unit_samples us \<and> generateBingoCard n us = Some (cd, [])"
    by (rule generateBingoCard_returns)
next
  assume g: "generateBingoCard n us = Some (cd, us')"
  then obtain cols where
    c: "generateColumns (zip (targetCounts n) columnRanges) us = Some (cols, us')"
    and grid: "cd_grid cd = buildGrid n cols"
    and m: "cd_numbersPerRow cd = 5" "cd_numbersPerCol cd = numbersPerCol n"
      "cd_centerRow cd = numbersPerCol n div 2" "cd_centerCol cd = 2"
    by (auto simp: generateBingoCard_def numbersPerRow_def centerCol_def split: option.splits)
  have "0 \<le> \<lceil>real (n + 1) / 5\<rceil>" by simp
  then have rows: "int (numbersPerCol n) = \<lceil>real (n + 1) / 5\<rceil>"
    unfolding numbersPerCol_def numbersPerRow_def by simp
  show "cd_numbersPerRow cd = 5" by (rule m(1))
  show "int (cd_numbersPerCol cd) = \<lceil>real (n + 1) / 5\<rceil>" using rows by (simp add: m(2))
  show "length (cd_grid cd) = cd_numbersPerCol cd * 5"
    by (simp add: grid length_buildGrid m(2))
  show "cd_centerRow cd = cd_numbersPerCol cd div 2" by (simp add: m(2,3))
  show "cd_centerCol cd = 2" by (rule m(4))
  have "cd_grid cd = map cellValue (gridCells n cols)"
    by (simp only: grid cellValue_gridCells)
  moreover have "count_list (gridCells n cols) Free = 1" by (rule gridCells_free)
  moreover have "gridCells n cols ! (cd_centerRow cd * 5 + cd_centerCol cd) = Free"
    using gridCells_center [of n cols] by (simp add: m(3,4) centerCol_def)
  ultimately show "\<exists>columnNumbers.
      generateColumns (zip (targetCounts n) columnRanges) us = Some (columnNumbers, us')
      \<and> cd_grid cd = map cellValue (gridCells n columnNumbers)
      \<and> count_list (gridCells n columnNumbers) Free = 1
      \<and> gridCells n columnNumbers ! (cd_centerRow cd * 5 + cd_centerCol cd) = Free"
    using c by blast
qed

theorem generateBingoCard_grid_witness:
  "(20::nat) \<le> 75 \<and> unit_samples samples20
    \<and> generateBingoCard 20 samples20 = Some (card20, [])
    \<and> cd_numbersPerRow card20 = 5 \<and> cd_numbersPerCol card20 = 5
    \<and> length (cd_grid card20) = 25 \<and> cd_centerRow card20 = 2 \<and> cd_centerCol card20 = 2
    \<and> generateColumns (zip (targetCounts 20) columnRanges) samples20
        = Some ([[1, 2, 8, 14], [17, 20, 25, 28], [31, 34, 38, 42], [49, 52, 55, 58],
                 [62, 66, 71, 74]], [])
    \<and> gridCells 20 [[1, 2, 8, 14], [17, 20, 25, 28], [31, 34, 38, 42], [49, 52, 55, 58],
                     [62, 66, 71, 74]]
        = [Number 1, Number 17, Number 31, Number 49, Number 62,
           Number 2, Number 20, Number 34, Number 52, Number 66,
           Number 8, Number 25, Free, Number 55, Number 71,
           Number 14, Number 28, Number 38, Number 58, Number 74,
           Empty, Empty, Number 42, Empty, Empty]
    \<and> cd_grid card20
        = map cellValue (gridCells 20 [[1, 2, 8, 14], [17, 20, 25, 28], [31, 34, 38, 42],
                                       [49, 52, 55, 58], [62, 66, 71, 74]])
    \<and> count_list (gridCells 20 [[1, 2, 8, 14], [17, 20, 25, 28], [31, 34, 38, 42],
                                 [49, 52, 55, 58], [62, 66, 71, 74]]) Free = 1
    \<and> gridCells 20 [[1, 2, 8, 14], [17, 20, 25, 28], [31, 34, 38, 42], [49, 52, 55, 58],
                     [62, 66, 71, 74]] ! (2 * 5 + 2) = Free"
proof -
  let ?cols = "[[1, 2, 8, 14], [17, 20, 25, 28], [31, 34, 38, 42], [49, 52, 55, 58],
    [62, 66, 71, 74::nat]]"
  have h: "(20::nat) \<le> 75" by simp
  have c: "generateColumns (zip (targetCounts 20) columnRanges) samples20 = Some (?cols, [])"
    by (simp add: generator_defs samples20_def)
  have e: "gridCells 20 ?cols
        = [Number 1, Number 17, Number 31, Number 49, Number 62,
           Number 2, Number 20, Number 34, Number 52, Number 66,
           Number 8, Number 25, Free, Number 55, Number 71,
           Number 14, Number 28, Number 38, Number 58, Number 74,
           Empty, Empty, Number 42, Empty, Empty]"
    by (simp add: gridCells_def numbersPerCol_eq numbersPerRow_def centerCol_def upt_rec)
  have "\<lceil>real (20 + 1) / 5\<rceil> = 5" by simp
  with generateBingoCard_grid [of 20 samples20 card20 "[]"] run20 c
  have p: "cd_numbersPerRow card20 = 5" "cd_numbersPerCol card20 = 5"
    "length (cd_grid card20) = 25" "cd_centerRow card20 = 2" "cd_centerCol card20 = 2"
    "cd_grid card20 = map cellValue (gridCells 20 ?cols)"
    "count_list (gridCells 20 ?cols) Free = 1"
    "gridCells 20 ?cols ! (2 * 5 + 2) = Free"
    by auto
  show ?thesis by (intro conjI) (rule h unit_samples20 run20 c e p)+
qed

section \<open>Properties of the handlers\<close>

text \<open>
  C9. A call of \<open>drawNumber\<close> or \<open>resetDraw\<close> from a connection that has no entry in
  \<open>users\<close>, or whose entry is not a host's, only sends the authorization error to that
  connection and leaves the state as it was.
\<close>

theorem draw_reset_need_host:
  assumes "users s socket = None \<or> (\<exists>info. users s socket = Some info \<and> \<not> u_isHost info)"
  shows "drawNumber s socket now us roomId = Some (s, [Emit socket (ErrorMsg AuthorizationError)])
    \<and> resetDraw s socket roomId = (s, [Emit socket (ErrorMsg AuthorizationError)])"
  using assms by (auto simp: drawNumber_def resetDraw_def)


theorem draw_reset_need_host_witness:
  "users exampleServer ''sockB'' = Some \<lparr> u_userId = ''7f3c'', u_roomId = ''0a1b2c3d'', u_isHost = False \<rparr>
    \<and> drawNumber exampleServer ''sockB'' 40 [1/2] ''0a1b2c3d''
        = Some (exampleServer, [Emit ''sockB'' (ErrorMsg AuthorizationError)])
    \<and> resetDraw exampleServer ''sockB'' ''0a1b2c3d''
        = (exampleServer, [Emit ''sockB'' (ErrorMsg AuthorizationError)])
    \<and> users exampleServer ''sockC'' = None
    \<and> drawNumber exampleServer ''sockC'' 40 [1/2] ''0a1b2c3d''
        = Some (exampleServer, [Emit ''sockC'' (ErrorMsg AuthorizationError)])
    \<and> resetDraw exampleServer ''sockC'' ''0a1b2c3d''
        = (exampleServer, [Emit ''sockC'' (ErrorMsg AuthorizationError)])"
proof -
  have b: "users exampleServer ''sockB''
      = Some \<lparr> u_userId = ''7f3c'', u_roomId = ''0a1b2c3d'', u_isHost = False \<rparr>"
    by (simp add: exampleServer_def)
  then have hb: "users exampleServer ''sockB'' = None
      \<or> (\<exists>info. users exampleServer ''sockB'' = Some info \<and> \<not> u_isHost info)"
    by simp
  have c: "users exampleServer ''sockC'' = None" by (simp add: exampleServer_def)
  then have hc: "users exampleServer ''sockC'' = None
      \<or> (\<exists>info. users exampleServer ''sockC'' = Some info \<and> \<not> u_isHost info)"
    by simp
  from draw_reset_need_host [OF hb, of 40 "[1/2]" "''0a1b2c3d''"]
    draw_reset_need_host [OF hc, of 40 "[1/2]" "''0a1b2c3d''"] b c
  show ?thesis by simp
qed

text \<open>
  C10. \<open>joinAsHost\<close> for an existing room succeeds whatever \<open>userId\<close> the caller sends (the
  handler never compares it with anything): the connection is stored in \<open>users\<close> as a host,
  joins the room and receives \<open>roomJoined\<close> with \<open>isHost = true\<close>. From then on neither
  \<open>drawNumber\<close> nor \<open>resetDraw\<close> answers this connection with the authorization error,
  for any room id; for the room joined, \<open>resetDraw\<close> resets it.
\<close>

theorem joinAsHost_any_user:
  assumes "rooms s roomId = Some room"
  shows "joinAsHost s socket roomId userId
      = (s\<lparr>users := (users s)(socket \<mapsto>
            \<lparr> u_userId = userId, u_roomId = roomId, u_isHost = True \<rparr>)\<rparr>,
         [Subscribe socket roomId, Emit socket (RoomJoined room True Undefined)])
    \<and> (\<forall>roomId' now us r. drawNumber (fst (joinAsHost s socket roomId userId)) socket now us roomId'
            = Some r \<longrightarrow> Emit socket (ErrorMsg AuthorizationError) \<notin> set (snd r))
    \<and> (\<forall>roomId'. Emit socket (ErrorMsg AuthorizationError)
            \<notin> set (snd (resetDraw (fst (joinAsHost s socket roomId userId)) socket roomId')))
    \<and> (\<exists>s' room'. resetDraw (fst (joinAsHost s socket roomId userId)) socket roomId
            = (s', [ToRoom roomId (DrawReset room')]) \<and> r_drawnNumbers room' = [])"
  using assms
  by (auto simp: joinAsHost_def drawNumber_def resetDraw_def Let_def split: option.splits)

theorem joinAsHost_any_user_witness:
  "rooms exampleServer ''0a1b2c3d'' = Some roomAna
    \<and> joinAsHost exampleServer ''sockC'' ''0a1b2c3d'' ''nobody''
        = (exampleServer\<lparr>users := (users exampleServer)(''sockC'' \<mapsto>
              \<lparr> u_userId = ''nobody'', u_roomId = ''0a1b2c3d'', u_isHost = True \<rparr>)\<rparr>,
           [Subscribe ''sockC'' ''0a1b2c3d'', Emit ''sockC'' (RoomJoined roomAna True Undefined)])
    \<and> r_participants roomAna ''nobody'' = None
    \<and> Emit ''sockC'' (ErrorMsg AuthorizationError)
        \<notin> set (snd (resetDraw (fst (joinAsHost exampleServer ''sockC'' ''0a1b2c3d'' ''nobody''))
                  ''sockC'' ''0a1b2c3d''))"
proof -
  have r: "rooms exampleServer ''0a1b2c3d'' = Some roomAna" by (simp add: exampleServer_def)
  have "r_participants roomAna ''nobody'' = None" by (simp add: roomAna_def)
  with joinAsHost_any_user [OF r, of "''sockC''" "''nobody''"] r show ?thesis by blast
qed

text \<open>
  C7. A \<open>resetDraw\<close> by a host connection for an existing room empties the room's drawn
  numbers, clears its last-draw time and empties the marked numbers of every participant;
  nothing else changes: each participant is as before in every other field, the room
  keeps its id, host name, card size and creation time, the other rooms and \<open>users\<close> are
  untouched, and the reset room is broadcast to the room.
\<close>

theorem resetDraw_frame:
  assumes "users s socket = Some info" and "u_isHost info" and "rooms s roomId = Some room"
  shows "\<exists>s' room'. resetDraw s socket roomId = (s', [ToRoom roomId (DrawReset room')])
    \<and> rooms s' roomId = Some room'
    \<and> r_drawnNumbers room' = [] \<and> r_lastDrawnAt room' = None
    \<and> dom (r_participants room') = dom (r_participants room)
    \<and> (\<forall>userId p. r_participants room userId = Some p \<longrightarrow>
          r_participants room' userId = Some (p\<lparr>p_markedNumbers := []\<rparr>))
    \<and> r_id room' = r_id room \<and> r_hostName room' = r_hostName room
    \<and> r_numbersPerCard room' = r_numbersPerCard room \<and> r_createdAt room' = r_createdAt room
    \<and> (\<forall>other. other \<noteq> roomId \<longrightarrow> rooms s' other = rooms s other)
    \<and> users s' = users s"
  using assms by (auto simp: resetDraw_def Let_def dom_def)

theorem resetDraw_frame_witness:
  "users exampleServer ''sockA''
      = Some \<lparr> u_userId = ''host'', u_roomId = ''0a1b2c3d'', u_isHost = True \<rparr>
    \<and> rooms exampleServer ''0a1b2c3d'' = Some roomAna
    \<and> r_participants roomAna ''7f3c'' = Some bruno
    \<and> (\<exists>s' room'. resetDraw exampleServer ''sockA'' ''0a1b2c3d''
          = (s', [ToRoom ''0a1b2c3d'' (DrawReset room')])
        \<and> rooms s' ''0a1b2c3d'' = Some room'
        \<and> r_drawnNumbers room' = [] \<and> r_lastDrawnAt room' = None
        \<and> r_participants room' ''7f3c'' = Some (bruno\<lparr>p_markedNumbers := []\<rparr>)
        \<and> r_id room' = ''0a1b2c3d'' \<and> r_hostName room' = ''Ana''
        \<and> r_numbersPerCard room' = 24 \<and> r_createdAt room' = 10
        \<and> users s' = users exampleServer)"
proof -
  have u: "users exampleServer ''sockA''
      = Some \<lparr> u_userId = ''host'', u_roomId = ''0a1b2c3d'', u_isHost = True \<rparr>"
    by (simp add: exampleServer_def)
  have h: "u_isHost \<lparr> u_userId = ''host'', u_roomId = ''0a1b2c3d'', u_isHost = True \<rparr>" by simp
  have r: "rooms exampleServer ''0a1b2c3d'' = Some roomAna" by (simp add: exampleServer_def)
  have b: "r_participants roomAna ''7f3c'' = Some bruno" by (simp add: roomAna_def)
  have f: "r_id roomAna = ''0a1b2c3d''" "r_hostName roomAna = ''Ana''"
    "r_numbersPerCard roomAna = 24" "r_createdAt roomAna = 10"
    by (simp_all add: roomAna_def)
  from resetDraw_frame [OF u h r] obtain s' room' where
    res: "resetDraw exampleServer ''sockA'' ''0a1b2c3d'' = (s', [ToRoom ''0a1b2c3d'' (DrawReset room')])"
    "rooms s' ''0a1b2c3d'' = Some room'"
    "r_drawnNumbers room' = []" "r_lastDrawnAt room' = None"
    and "dom (r_participants room') = dom (r_participants roomAna)"
    and ps: "\<forall>userId p. r_participants roomAna userId = Some p \<longrightarrow>
          r_participants room' userId = Some (p\<lparr>p_markedNumbers := []\<rparr>)"
    and fr: "r_id room' = r_id roomAna" "r_hostName room' = r_hostName roomAna"
    "r_numbersPerCard room' = r_numbersPerCard roomAna" "r_createdAt room' = r_createdAt roomAna"
    and "\<forall>other. other \<noteq> ''0a1b2c3d'' \<longrightarrow> rooms s' other = rooms exampleServer other"
    and us: "users s' = users exampleServer"
    apply (elim exE conjE)
    apply (rule that)
               apply assumption+
    done
  from ps b have "r_participants room' ''7f3c'' = Some (bruno\<lparr>p_markedNumbers := []\<rparr>)"
    by simp
  with res fr us f have "\<exists>s' room'. resetDraw exampleServer ''sockA'' ''0a1b2c3d''
          = (s', [ToRoom ''0a1b2c3d'' (DrawReset room')])
        \<and> rooms s' ''0a1b2c3d'' = Some room'
        \<and> r_drawnNumbers room' = [] \<and> r_lastDrawnAt room' = None
        \<and> r_participants room' ''7f3c'' = Some (bruno\<lparr>p_markedNumbers := []\<rparr>)
        \<and> r_id room' = ''0a1b2c3d'' \<and> r_hostName room' = ''Ana''
        \<and> r_numbersPerCard room' = 24 \<and> r_createdAt room' = 10
        \<and> users s' = users exampleServer"
    by (intro exI [of _ s'] exI [of _ room']) simp
  with u r b show ?thesis by (simp only: simp_thms)
qed

text \<open>
  C5. For a participant of an existing room and a number on the participant's card,
  \<open>markNumber\<close> stores the toggled marked numbers and answers the caller with
  \<open>numberMarked\<close>, whose \<open>hasBingo\<close> holds exactly if there are as many marked numbers as
  card numbers; in that case, and only then, \<open>bingo\<close> is broadcast to the room. The answer
  does not depend on \<open>cardGrid\<close>, where the free cell is: the counts are those of
  \<open>markedNumbers\<close> and \<open>card\<close>, which hold numbers only. Conversely, \<open>markNumber\<close> answers
  with \<open>numberMarked\<close> only in this case.
\<close>

theorem markNumber_hasBingo:
  "(rooms s roomId = Some room \<longrightarrow> r_participants room userId = Some p \<longrightarrow>
      number \<in> set (p_card p) \<longrightarrow>
      (\<exists>marked hasBingo.
          markNumber s socket roomId userId number
            = (s\<lparr>rooms := (rooms s)(roomId \<mapsto> room\<lparr>r_participants :=
                  (r_participants room)(userId \<mapsto> p\<lparr>p_markedNumbers := marked\<rparr>)\<rparr>)\<rparr>,
               Emit socket (NumberMarked number marked hasBingo)
                 # (if hasBingo then [ToRoom roomId (Bingo userId (p_name p))] else []))
          \<and> marked = (if number \<in> set (p_markedNumbers p)
                       then remove1 number (p_markedNumbers p)
                       else p_markedNumbers p @ [number])
          \<and> (hasBingo \<longleftrightarrow> length marked = length (p_card p))
          \<and> (\<forall>grid. snd (markNumber
                   (s\<lparr>rooms := (rooms s)(roomId \<mapsto> room\<lparr>r_participants :=
                      (r_participants room)(userId \<mapsto> p\<lparr>p_cardGrid := grid\<rparr>)\<rparr>)\<rparr>)
                   socket roomId userId number)
                = snd (markNumber s socket roomId userId number))))
    \<and> (markNumber s socket roomId userId number = (s', outs) \<longrightarrow>
        Emit socket (NumberMarked n marked' hasBingo') \<in> set outs \<longrightarrow>
        (\<exists>room p room' p'. rooms s roomId = Some room \<and> r_participants room userId = Some p
          \<and> rooms s' roomId = Some room' \<and> r_participants room' userId = Some p'
          \<and> n = number \<and> number \<in> set (p_card p)
          \<and> p' = p\<lparr>p_markedNumbers := marked'\<rparr>
          \<and> (hasBingo' \<longleftrightarrow> length (p_markedNumbers p') = length (p_card p'))
          \<and> (ToRoom roomId (Bingo userId (p_name p)) \<in> set outs \<longleftrightarrow> hasBingo')))"
proof (intro conjI impI)
  assume r: "rooms s roomId = Some room" and q: "r_participants room userId = Some p"
    and c: "number \<in> set (p_card p)"
  define marked where "marked = (if number \<in> set (p_markedNumbers p)
    then remove1 number (p_markedNumbers p) else p_markedNumbers p @ [number])"
  define hasBingo where "hasBingo \<longleftrightarrow> length marked = length (p_card p)"
  have run: "markNumber s socket roomId userId number
      = (s\<lparr>rooms := (rooms s)(roomId \<mapsto> room\<lparr>r_participants :=
            (r_participants room)(userId \<mapsto> p\<lparr>p_markedNumbers := marked\<rparr>)\<rparr>)\<rparr>,
         Emit socket (NumberMarked number marked hasBingo)
           # (if hasBingo then [ToRoom roomId (Bingo userId (p_name p))] else []))"
    using r q c by (simp add: markNumber_def getProperty_def Let_def marked_def hasBingo_def)
  have grid: "\<And>grid. snd (markNumber
      (s\<lparr>rooms := (rooms s)(roomId \<mapsto> room\<lparr>r_participants :=
         (r_participants room)(userId \<mapsto> p\<lparr>p_cardGrid := grid\<rparr>)\<rparr>)\<rparr>)
      socket roomId userId number)
    = snd (markNumber s socket roomId userId number)"
    unfolding run using c
    by (simp add: markNumber_def getProperty_def Let_def marked_def hasBingo_def)
  show "\<exists>marked hasBingo.
      markNumber s socket roomId userId number
        = (s\<lparr>rooms := (rooms s)(roomId \<mapsto> room\<lparr>r_participants :=
              (r_participants room)(userId \<mapsto> p\<lparr>p_markedNumbers := marked\<rparr>)\<rparr>)\<rparr>,
           Emit socket (NumberMarked number marked hasBingo)
             # (if hasBingo then [ToRoom roomId (Bingo userId (p_name p))] else []))
      \<and> marked = (if number \<in> set (p_markedNumbers p)
                   then remove1 number (p_markedNumbers p)
                   else p_markedNumbers p @ [number])
      \<and> (hasBingo \<longleftrightarrow> length marked = length (p_card p))
      \<and> (\<forall>grid. snd (markNumber
               (s\<lparr>rooms := (rooms s)(roomId \<mapsto> room\<lparr>r_participants :=
                  (r_participants room)(userId \<mapsto> p\<lparr>p_cardGrid := grid\<rparr>)\<rparr>)\<rparr>)
               socket roomId userId number)
            = snd (markNumber s socket roomId userId number))"
    using run grid marked_def hasBingo_def
    by (intro exI [of _ marked] exI [of _ hasBingo]) blast
next
  assume "markNumber s socket roomId userId number = (s', outs)"
    and "Emit socket (NumberMarked n marked' hasBingo') \<in> set outs"
  then show "\<exists>room p room' p'. rooms s roomId = Some room \<and> r_participants room userId = Some p
      \<and> rooms s' roomId = Some room' \<and> r_participants room' userId = Some p'
      \<and> n = number \<and> number \<in> set (p_card p)
      \<and> p' = p\<lparr>p_markedNumbers := marked'\<rparr>
      \<and> (hasBingo' \<longleftrightarrow> length (p_markedNumbers p') = length (p_card p'))
      \<and> (ToRoom roomId (Bingo userId (p_name p)) \<in> set outs \<longleftrightarrow> hasBingo')"
    by (auto simp: markNumber_def getProperty_def Let_def
        split: option.splits property.splits if_splits)
qed


lemma exampleMarked_rooms:
  "rooms (exampleMarked m) ''0a1b2c3d''
    = Some (roomAna\<lparr> r_drawnNumbers := [1..<Suc 8], r_lastDrawnAt := Some 108,
              r_participants := [''7f3c'' \<mapsto> bruno\<lparr>p_markedNumbers := m\<rparr>] \<rparr>)"
  by (simp add: exampleMarked_def del: upt_Suc)

theorem markNumber_hasBingo_witness:
  "rooms exampleServer ''0a1b2c3d'' = Some roomAna
    \<and> r_participants roomAna ''7f3c'' = Some bruno
    \<and> 11 \<in> set (p_card bruno)
    \<and> markNumber exampleServer ''sockB'' ''0a1b2c3d'' ''7f3c'' 11
        = (exampleServer\<lparr>rooms := (rooms exampleServer)(''0a1b2c3d'' \<mapsto>
              roomAna\<lparr>r_participants := (r_participants roomAna)(''7f3c'' \<mapsto>
                bruno\<lparr>p_markedNumbers := [8, 25, 11]\<rparr>)\<rparr>)\<rparr>,
           [Emit ''sockB'' (NumberMarked 11 [8, 25, 11] False)])
    \<and> length [8, 25, 11::nat] \<noteq> length (p_card bruno)
    \<and> 74 \<in> set (p_card bruno)
    \<and> markNumber (exampleMarked (butlast (p_card bruno))) ''sockB'' ''0a1b2c3d'' ''7f3c'' 74
        = (exampleMarked (p_card bruno),
           [Emit ''sockB'' (NumberMarked 74 (p_card bruno) True),
            ToRoom ''0a1b2c3d'' (Bingo ''7f3c'' ''Bruno'')])
    \<and> markNumber (exampleMarked (p_card bruno)) ''sockB'' ''0a1b2c3d'' ''7f3c'' 74
        = (exampleMarked (butlast (p_card bruno)),
           [Emit ''sockB'' (NumberMarked 74 (butlast (p_card bruno)) False)])
    \<and> length (p_card bruno) = 24 \<and> length (p_cardGrid bruno) = 25"
proof -
  have r: "rooms exampleServer ''0a1b2c3d'' = Some roomAna" by (simp add: exampleServer_def)
  have q: "r_participants roomAna ''7f3c'' = Some bruno" by (simp add: roomAna_def)
  have c11: "11 \<in> set (p_card bruno)" and c74: "74 \<in> set (p_card bruno)"
    and len: "length (p_card bruno) = 24" "length (p_cardGrid bruno) = 25"
    by (simp_all add: bruno_def card24_def)
  have m: "p_markedNumbers bruno = [8, 25]" "p_name bruno = ''Bruno''"
    by (simp_all add: bruno_def)
  from markNumber_hasBingo [of exampleServer "''0a1b2c3d''" roomAna "''7f3c''" bruno 11 "''sockB''"]
    r q c11
  obtain marked hasBingo where
    run: "markNumber exampleServer ''sockB'' ''0a1b2c3d'' ''7f3c'' 11
        = (exampleServer\<lparr>rooms := (rooms exampleServer)(''0a1b2c3d'' \<mapsto>
              roomAna\<lparr>r_participants := (r_participants roomAna)(''7f3c'' \<mapsto>
                bruno\<lparr>p_markedNumbers := marked\<rparr>)\<rparr>)\<rparr>,
           Emit ''sockB'' (NumberMarked 11 marked hasBingo)
             # (if hasBingo then [ToRoom ''0a1b2c3d'' (Bingo ''7f3c'' (p_name bruno))] else []))"
    and mk: "marked = (if 11 \<in> set (p_markedNumbers bruno)
        then remove1 11 (p_markedNumbers bruno) else p_markedNumbers bruno @ [11])"
    and hb: "hasBingo \<longleftrightarrow> length marked = length (p_card bruno)"
    by blast
  from mk have mk': "marked = [8, 25, 11]" by (simp add: m)
  with hb have hb': "\<not> hasBingo" by (simp add: len)
  have run1: "markNumber exampleServer ''sockB'' ''0a1b2c3d'' ''7f3c'' 11
        = (exampleServer\<lparr>rooms := (rooms exampleServer)(''0a1b2c3d'' \<mapsto>
              roomAna\<lparr>r_participants := (r_participants roomAna)(''7f3c'' \<mapsto>
                bruno\<lparr>p_markedNumbers := [8, 25, 11]\<rparr>)\<rparr>)\<rparr>,
           [Emit ''sockB'' (NumberMarked 11 [8, 25, 11] False)])"
    using run unfolding mk' using hb' by simp
  have ne: "length [8, 25, 11::nat] \<noteq> length (p_card bruno)" using hb hb' mk' by simp
  let ?almost = "butlast (p_card bruno)"
  let ?room = "\<lambda>marks. roomAna\<lparr> r_drawnNumbers := [1..<Suc 8], r_lastDrawnAt := Some 108,
              r_participants := [''7f3c'' \<mapsto> bruno\<lparr>p_markedNumbers := marks\<rparr>] \<rparr>"
  have card: "p_card bruno = ?almost @ [74]" "74 \<notin> set ?almost" "distinct (p_card bruno)"
    by (simp_all add: bruno_def card24_def)
  have c74': "\<And>marks. 74 \<in> set (p_card (bruno\<lparr>p_markedNumbers := marks\<rparr>))"
    using c74 by simp
  have q': "\<And>marks. r_participants (?room marks) ''7f3c''
      = Some (bruno\<lparr>p_markedNumbers := marks\<rparr>)"
    by simp
  from markNumber_hasBingo [of "exampleMarked ?almost" "''0a1b2c3d''" "?room ?almost" "''7f3c''"
      "bruno\<lparr>p_markedNumbers := ?almost\<rparr>" 74 "''sockB''"]
    exampleMarked_rooms [of ?almost] q' [of ?almost] c74' [of ?almost]
  obtain marked2 hasBingo2 where
    run2: "markNumber (exampleMarked ?almost) ''sockB'' ''0a1b2c3d'' ''7f3c'' 74
        = ((exampleMarked ?almost)\<lparr>rooms := (rooms (exampleMarked ?almost))(''0a1b2c3d'' \<mapsto>
              (?room ?almost)\<lparr>r_participants := (r_participants (?room ?almost))(''7f3c'' \<mapsto>
                bruno\<lparr>p_markedNumbers := ?almost, p_markedNumbers := marked2\<rparr>)\<rparr>)\<rparr>,
           Emit ''sockB'' (NumberMarked 74 marked2 hasBingo2)
             # (if hasBingo2 then [ToRoom ''0a1b2c3d''
                  (Bingo ''7f3c'' (p_name (bruno\<lparr>p_markedNumbers := ?almost\<rparr>)))] else []))"
    and mk2: "marked2 = (if 74 \<in> set (p_markedNumbers (bruno\<lparr>p_markedNumbers := ?almost\<rparr>))
        then remove1 74 (p_markedNumbers (bruno\<lparr>p_markedNumbers := ?almost\<rparr>))
        else p_markedNumbers (bruno\<lparr>p_markedNumbers := ?almost\<rparr>) @ [74])"
    and hb2: "hasBingo2 \<longleftrightarrow> length marked2
        = length (p_card (bruno\<lparr>p_markedNumbers := ?almost\<rparr>))"
    by blast
  from mk2 card have mk2': "marked2 = p_card bruno" by simp
  with hb2 have hb2': "hasBingo2" by simp
  have run2': "markNumber (exampleMarked ?almost) ''sockB'' ''0a1b2c3d'' ''7f3c'' 74
        = (exampleMarked (p_card bruno),
           [Emit ''sockB'' (NumberMarked 74 (p_card bruno) True),
            ToRoom ''0a1b2c3d'' (Bingo ''7f3c'' ''Bruno'')])"
    using run2 hb2' unfolding mk2' by (simp add: exampleMarked_def m del: upt_Suc)
  from markNumber_hasBingo [of "exampleMarked (p_card bruno)" "''0a1b2c3d''"
      "?room (p_card bruno)" "''7f3c''" "bruno\<lparr>p_markedNumbers := p_card bruno\<rparr>" 74 "''sockB''"]
    exampleMarked_rooms [of "p_card bruno"] q' [of "p_card bruno"] c74' [of "p_card bruno"]
  obtain marked3 hasBingo3 where
    run3: "markNumber (exampleMarked (p_card bruno)) ''sockB'' ''0a1b2c3d'' ''7f3c'' 74
        = ((exampleMarked (p_card bruno))\<lparr>rooms := (rooms (exampleMarked (p_card bruno)))(''0a1b2c3d'' \<mapsto>
              (?room (p_card bruno))\<lparr>r_participants := (r_participants (?room (p_card bruno)))(''7f3c'' \<mapsto>
                bruno\<lparr>p_markedNumbers := p_card bruno, p_markedNumbers := marked3\<rparr>)\<rparr>)\<rparr>,
           Emit ''sockB'' (NumberMarked 74 marked3 hasBingo3)
             # (if hasBingo3 then [ToRoom ''0a1b2c3d''
                  (Bingo ''7f3c'' (p_name (bruno\<lparr>p_markedNumbers := p_card bruno\<rparr>)))] else []))"
    and mk3: "marked3 = (if 74 \<in> set (p_markedNumbers (bruno\<lparr>p_markedNumbers := p_card bruno\<rparr>))
        then remove1 74 (p_markedNumbers (bruno\<lparr>p_markedNumbers := p_card bruno\<rparr>))
        else p_markedNumbers (bruno\<lparr>p_markedNumbers := p_card bruno\<rparr>) @ [74])"
    and hb3: "hasBingo3 \<longleftrightarrow> length marked3
        = length (p_card (bruno\<lparr>p_markedNumbers := p_card bruno\<rparr>))"
    by blast
  have "remove1 74 (?almost @ [74]) = ?almost" using card(2) by (simp add: remove1_append)
  with mk3 c74 card(1) have mk3': "marked3 = ?almost" by simp
  with hb3 have hb3': "\<not> hasBingo3" using len(1) by simp
  have run3': "markNumber (exampleMarked (p_card bruno)) ''sockB'' ''0a1b2c3d'' ''7f3c'' 74
        = (exampleMarked ?almost, [Emit ''sockB'' (NumberMarked 74 ?almost False)])"
    using run3 hb3' unfolding mk3' by (simp add: exampleMarked_def del: upt_Suc)
  show ?thesis by (intro conjI) (rule r q c11 c74 run1 ne run2' run3' len)+
qed

lemma draw_sample: "nat \<lfloor>u * real maxNumber\<rfloor> + 1 = randomInRange u (1, 75)"
  by (simp add: randomInRange_def maxNumber_def)

lemma drawLoop_number:
  assumes "drawLoop drawn us = Some number" and "unit_samples us"
  shows "1 \<le> number \<and> number \<le> 75 \<and> number \<notin> set drawn"
  using assms
proof (induction us)
  case Nil
  then show ?case by simp
next
  case (Cons u us)
  from Cons.prems(2) have u: "0 \<le> u" "u < 1" and us: "unit_samples us"
    by (simp_all add: unit_samples_def)
  have b: "1 \<le> randomInRange u (1, 75) \<and> randomInRange u (1, 75) \<le> 75"
    using randomInRange_bounds [OF u, of 1 75] by simp
  have eq: "drawLoop drawn (u # us)
      = (if randomInRange u (1, 75) \<in> set drawn then drawLoop drawn us
         else Some (randomInRange u (1, 75)))"
    by (simp only: drawLoop.simps draw_sample Let_def)
  show ?case
  proof (cases "randomInRange u (1, 75) \<in> set drawn")
    case True
    with Cons.prems(1) have "drawLoop drawn us = Some number" unfolding eq by simp
    from Cons.IH [OF this us] show ?thesis .
  next
    case False
    with Cons.prems(1) have "number = randomInRange u (1, 75)" unfolding eq by simp
    with b False show ?thesis by simp
  qed
qed

lemma drawLoop_returns:
  assumes "length drawn < 75"
  shows "\<exists>us. unit_samples us \<and> drawLoop drawn us \<noteq> None"
proof -
  have "card (set drawn) \<le> length drawn" by (rule card_length)
  with assms have "card (set drawn) < card {1..75::nat}" by simp
  then have "\<not> {1..75} \<subseteq> set drawn"
    using card_mono [of "set drawn" "{1..75}"] by fastforce
  then obtain v where "v \<in> {1..75}" "v \<notin> set drawn" by blast
  then have v: "1 \<le> v" "v \<le> 75" "v \<notin> set drawn" by simp_all
  from randomInRange_hits [OF v(1,2)] obtain u where
    u: "0 \<le> u" "u < 1" "randomInRange u (1, 75) = v" by blast
  have "unit_samples [u]" using u by (simp add: unit_samples_def)
  moreover have "drawLoop drawn [u] = Some v"
    using u(3) v(3) by (simp only: drawLoop.simps draw_sample Let_def) simp
  ultimately show ?thesis by (intro exI [of _ "[u]"]) simp
qed

text \<open>What a call of \<open>drawNumber\<close> that broadcasts a number has done.\<close>

lemma drawNumber_drawn:
  assumes "drawNumber s socket now us roomId = Some (s', outs)"
    and "users s socket = Some info" and "u_isHost info" and "rooms s roomId = Some room"
    and "length (r_drawnNumbers room) < 75"
  shows "\<exists>number. drawLoop (r_drawnNumbers room) us = Some number
    \<and> outs = [ToRoom roomId (NumberDrawn number (sort (r_drawnNumbers room @ [number]))
                (length (r_drawnNumbers room) + 1))]
    \<and> s' = s\<lparr>rooms := (rooms s)(roomId \<mapsto>
          room\<lparr>r_drawnNumbers := sort (r_drawnNumbers room @ [number]),
               r_lastDrawnAt := Some now\<rparr>)\<rparr>"
  using assms by (auto simp: drawNumber_def maxNumber_def Let_def split: option.splits)

lemma drawNumber_exhausted:
  assumes "users s socket = Some info" and "u_isHost info" and "rooms s roomId = Some room"
    and "75 \<le> length (r_drawnNumbers room)"
  shows "drawNumber s socket now us roomId = Some (s, [Emit socket (ErrorMsg ExhaustedError)])"
  using assms by (simp add: drawNumber_def maxNumber_def)

lemma drawNumber_broadcast:
  assumes "drawNumber s socket now us roomId
      = Some (s', [ToRoom roomId (NumberDrawn number drawn totalDrawn)])"
  shows "\<exists>info room. users s socket = Some info \<and> u_isHost info \<and> rooms s roomId = Some room
    \<and> length (r_drawnNumbers room) < 75
    \<and> rooms s' roomId = Some (room\<lparr>r_drawnNumbers := drawn, r_lastDrawnAt := Some now\<rparr>)
    \<and> length drawn = length (r_drawnNumbers room) + 1
    \<and> users s' = users s"
  using assms
  by (auto simp: drawNumber_def maxNumber_def Let_def split: option.splits if_splits)

lemma draws_length:
  assumes "draws socket roomId k s s'" and "rooms s roomId = Some room"
  shows "\<exists>room'. rooms s' roomId = Some room'
    \<and> length (r_drawnNumbers room') = length (r_drawnNumbers room) + k
    \<and> users s' = users s"
  using assms
proof (induction rule: draws.induct)
  case (none s)
  then show ?case by simp
next
  case (more k s s' us now s'' number drawn totalDrawn)
  from more.IH [OF more.prems] obtain room' where
    r: "rooms s' roomId = Some room'"
      "length (r_drawnNumbers room') = length (r_drawnNumbers room) + k"
      "users s' = users s"
    by blast
  from drawNumber_broadcast [OF more.hyps(3)] r show ?case by auto
qed

text \<open>
  C2. For a host connection and an existing room: while fewer than 75 numbers are drawn,
  some run of the random source lets \<open>drawNumber\<close> return, and whenever it returns it
  broadcasts a number in 1..75 that was not among the drawn numbers and stores it, sorted
  in; once 75 numbers are drawn the call only sends the exhaustion error to the caller and
  changes nothing. Hence after draws that bring the count to 75 (75 draws from an empty
  sequence) the next call fails.
\<close>

theorem drawNumber_fresh_or_exhausted:
  assumes "users s socket = Some info" and "u_isHost info" and "rooms s roomId = Some room"
  shows "(length (r_drawnNumbers room) < 75 \<longrightarrow>
        (\<exists>us. unit_samples us \<and> drawNumber s socket now us roomId \<noteq> None)
        \<and> (\<forall>us s' outs. unit_samples us \<longrightarrow> drawNumber s socket now us roomId = Some (s', outs) \<longrightarrow>
              (\<exists>number. 1 \<le> number \<and> number \<le> 75 \<and> number \<notin> set (r_drawnNumbers room)
                \<and> outs = [ToRoom roomId (NumberDrawn number (sort (r_drawnNumbers room @ [number]))
                            (length (r_drawnNumbers room) + 1))]
                \<and> s' = s\<lparr>rooms := (rooms s)(roomId \<mapsto>
                      room\<lparr>r_drawnNumbers := sort (r_drawnNumbers room @ [number]),
                           r_lastDrawnAt := Some now\<rparr>)\<rparr>)))
    \<and> (75 \<le> length (r_drawnNumbers room) \<longrightarrow>
        (\<forall>us. drawNumber s socket now us roomId
              = Some (s, [Emit socket (ErrorMsg ExhaustedError)])))
    \<and> (\<forall>k s' now' us. draws socket roomId k s s' \<longrightarrow> 75 \<le> length (r_drawnNumbers room) + k \<longrightarrow>
          drawNumber s' socket now' us roomId
            = Some (s', [Emit socket (ErrorMsg ExhaustedError)]))"
proof (intro conjI impI allI)
  assume lt: "length (r_drawnNumbers room) < 75"
  from drawLoop_returns [OF lt] obtain us where
    us: "unit_samples us" "drawLoop (r_drawnNumbers room) us \<noteq> None" by blast
  then have "drawNumber s socket now us roomId \<noteq> None"
    using assms lt by (auto simp: drawNumber_def maxNumber_def Let_def)
  with us(1) show "\<exists>us. unit_samples us \<and> drawNumber s socket now us roomId \<noteq> None" by blast
next
  fix us s' outs
  assume lt: "length (r_drawnNumbers room) < 75" and u: "unit_samples us"
    and d: "drawNumber s socket now us roomId = Some (s', outs)"
  from drawNumber_drawn [OF d assms lt] obtain number where
    n: "drawLoop (r_drawnNumbers room) us = Some number"
      "outs = [ToRoom roomId (NumberDrawn number (sort (r_drawnNumbers room @ [number]))
                (length (r_drawnNumbers room) + 1))]"
      "s' = s\<lparr>rooms := (rooms s)(roomId \<mapsto>
          room\<lparr>r_drawnNumbers := sort (r_drawnNumbers room @ [number]),
               r_lastDrawnAt := Some now\<rparr>)\<rparr>"
    by blast
  from drawLoop_number [OF n(1) u] n(2,3)
  show "\<exists>number. 1 \<le> number \<and> number \<le> 75 \<and> number \<notin> set (r_drawnNumbers room)
      \<and> outs = [ToRoom roomId (NumberDrawn number (sort (r_drawnNumbers room @ [number]))
                  (length (r_drawnNumbers room) + 1))]
      \<and> s' = s\<lparr>rooms := (rooms s)(roomId \<mapsto>
            room\<lparr>r_drawnNumbers := sort (r_drawnNumbers room @ [number]),
                 r_lastDrawnAt := Some now\<rparr>)\<rparr>"
    by blast
next
  fix us
  assume "75 \<le> length (r_drawnNumbers room)"
  then show "drawNumber s socket now us roomId = Some (s, [Emit socket (ErrorMsg ExhaustedError)])"
    by (rule drawNumber_exhausted [OF assms])
next
  fix k s' now' us
  assume d: "draws socket roomId k s s'" and ge: "75 \<le> length (r_drawnNumbers room) + k"
  from draws_length [OF d assms(3)] obtain room' where
    r: "rooms s' roomId = Some room'"
      "length (r_drawnNumbers room') = length (r_drawnNumbers room) + k" "users s' = users s"
    by blast
  from r(3) assms(1) have "users s' socket = Some info" by simp
  from drawNumber_exhausted [OF this assms(2) r(1)] ge r(2)
  show "drawNumber s' socket now' us roomId = Some (s', [Emit socket (ErrorMsg ExhaustedError)])"
    by simp
qed

lemma sort_upt_snoc: "sort ([Suc 0..<Suc k] @ [Suc k]) = [Suc 0..<Suc (Suc k)]"
proof -
  have "sorted ([Suc 0..<Suc k] @ [Suc k])" by (simp add: sorted_append)
  then have "sort ([Suc 0..<Suc k] @ [Suc k]) = [Suc 0..<Suc k] @ [Suc k]"
    by (rule sorted_sort_id)
  then show ?thesis by simp
qed

lemma exampleServerDrawn_step:
  assumes "k < 75"
  shows "drawNumber (exampleServerDrawn k) ''sockA'' (100 + Suc k) [real k / 75] ''0a1b2c3d''
    = Some (exampleServerDrawn (Suc k),
        [ToRoom ''0a1b2c3d'' (NumberDrawn (Suc k) [1..<Suc (Suc k)] (Suc k))])"
proof -
  have "\<lfloor>real k / 75 * real maxNumber\<rfloor> = int k" by (simp add: maxNumber_def)
  then have "drawLoop [1..<Suc k] [real k / 75] = Some (Suc k)" by simp
  then show ?thesis
    using assms unfolding exampleServerDrawn_def drawNumber_def
    by (simp add: exampleServer_def roomAna_def maxNumber_def sort_upt_snoc Let_def
        del: upt_Suc drawLoop.simps)
qed

lemma exampleServerDrawn_draws:
  "k \<le> 75 \<Longrightarrow> draws ''sockA'' ''0a1b2c3d'' k (exampleServerDrawn 0) (exampleServerDrawn k)"
proof (induction k)
  case 0
  show ?case by (rule draws.none)
next
  case (Suc k)
  then have d: "draws ''sockA'' ''0a1b2c3d'' k (exampleServerDrawn 0) (exampleServerDrawn k)"
    and k: "k < 75" by simp_all
  have u: "unit_samples [real k / 75]" using k by (simp add: unit_samples_def)
  from draws.more [OF d u exampleServerDrawn_step [OF k]] show ?case .
qed

theorem drawNumber_fresh_or_exhausted_witness:
  "users exampleServer ''sockA''
      = Some \<lparr> u_userId = ''host'', u_roomId = ''0a1b2c3d'', u_isHost = True \<rparr>
    \<and> rooms exampleServer ''0a1b2c3d'' = Some roomAna
    \<and> r_drawnNumbers roomAna = [8, 25, 40]
    \<and> unit_samples [8/25, 1/2]
    \<and> drawNumber exampleServer ''sockA'' 50 [8/25, 1/2] ''0a1b2c3d''
        = Some (exampleServer\<lparr>rooms := (rooms exampleServer)(''0a1b2c3d'' \<mapsto>
                  roomAna\<lparr>r_drawnNumbers := [8, 25, 38, 40], r_lastDrawnAt := Some 50\<rparr>)\<rparr>,
                [ToRoom ''0a1b2c3d'' (NumberDrawn 38 [8, 25, 38, 40] 4)])
    \<and> 1 \<le> (38::nat) \<and> (38::nat) \<le> 75 \<and> 38 \<notin> set (r_drawnNumbers roomAna)
    \<and> rooms (exampleServerDrawn 0) ''0a1b2c3d''
        = Some (roomAna\<lparr> r_drawnNumbers := [], r_lastDrawnAt := None,
                  r_participants := [''7f3c'' \<mapsto> bruno\<lparr>p_markedNumbers := []\<rparr>] \<rparr>)
    \<and> draws ''sockA'' ''0a1b2c3d'' 75 (exampleServerDrawn 0) (exampleServerDrawn 75)
    \<and> drawNumber (exampleServerDrawn 75) ''sockA'' 200 [1/2] ''0a1b2c3d''
        = Some (exampleServerDrawn 75, [Emit ''sockA'' (ErrorMsg ExhaustedError)])"
proof -
  let ?info = "\<lparr> u_userId = ''host'', u_roomId = ''0a1b2c3d'', u_isHost = True \<rparr>"
  let ?room0 = "roomAna\<lparr> r_drawnNumbers := [], r_lastDrawnAt := None,
                  r_participants := [''7f3c'' \<mapsto> bruno\<lparr>p_markedNumbers := []\<rparr>] \<rparr>"
  have u: "users exampleServer ''sockA'' = Some ?info" by (simp add: exampleServer_def)
  have h: "u_isHost ?info" by simp
  have r: "rooms exampleServer ''0a1b2c3d'' = Some roomAna" by (simp add: exampleServer_def)
  have dr: "r_drawnNumbers roomAna = [8, 25, 40]" by (simp add: roomAna_def)
  have us: "unit_samples [8/25, 1/2]" by (simp add: unit_samples_def)
  have d: "drawNumber exampleServer ''sockA'' 50 [8/25, 1/2] ''0a1b2c3d''
        = Some (exampleServer\<lparr>rooms := (rooms exampleServer)(''0a1b2c3d'' \<mapsto>
                  roomAna\<lparr>r_drawnNumbers := [8, 25, 38, 40], r_lastDrawnAt := Some 50\<rparr>)\<rparr>,
                [ToRoom ''0a1b2c3d'' (NumberDrawn 38 [8, 25, 38, 40] 4)])"
    by (simp add: drawNumber_def u r dr maxNumber_def Let_def)
  have lt: "length (r_drawnNumbers roomAna) < 75" by (simp add: dr)
  from drawNumber_fresh_or_exhausted [OF u h r, of 50] lt us d
  obtain number where "1 \<le> number \<and> number \<le> 75 \<and> number \<notin> set (r_drawnNumbers roomAna)"
    "[ToRoom ''0a1b2c3d'' (NumberDrawn 38 [8, 25, 38, 40] 4)]
      = [ToRoom ''0a1b2c3d'' (NumberDrawn number (sort (r_drawnNumbers roomAna @ [number]))
            (length (r_drawnNumbers roomAna) + 1))]"
    by blast
  then have fresh: "1 \<le> (38::nat) \<and> (38::nat) \<le> 75 \<and> 38 \<notin> set (r_drawnNumbers roomAna)"
    by simp
  have u0: "users (exampleServerDrawn 0) ''sockA'' = Some ?info"
    by (simp add: exampleServerDrawn_def exampleServer_def)
  have r0: "rooms (exampleServerDrawn 0) ''0a1b2c3d'' = Some ?room0"
    by (simp add: exampleServerDrawn_def)
  have d75: "draws ''sockA'' ''0a1b2c3d'' 75 (exampleServerDrawn 0) (exampleServerDrawn 75)"
    by (rule exampleServerDrawn_draws) simp
  have "75 \<le> length (r_drawnNumbers ?room0) + 75" by simp
  with drawNumber_fresh_or_exhausted [OF u0 h r0, of 0] d75
  have ex: "drawNumber (exampleServerDrawn 75) ''sockA'' 200 [1/2] ''0a1b2c3d''
        = Some (exampleServerDrawn 75, [Emit ''sockA'' (ErrorMsg ExhaustedError)])"
    by blast
  from u r dr us d fresh r0 d75 ex show ?thesis by (simp only: simp_thms)
qed

lemma serverOk_update:
  assumes "serverOk s" and "roomOk room"
  shows "serverOk (s\<lparr>rooms := (rooms s)(roomId \<mapsto> room)\<rparr>)"
  using assms by (simp add: serverOk_def)

lemma serverOk_users: "serverOk (s\<lparr>users := us\<rparr>) = serverOk s"
  by (simp add: serverOk_def)

lemma drawnNumbersOk_draw:
  assumes "drawnNumbersOk drawn" and "length drawn < 75"
    and "1 \<le> number" "number \<le> 75" "number \<notin> set drawn"
  shows "drawnNumbersOk (sort (drawn @ [number]))"
  using assms by (simp add: drawnNumbersOk_def)

lemma drawnNumbersOk_empty: "drawnNumbersOk []"
  by (simp add: drawnNumbersOk_def)

lemma createRoom_ok:
  assumes "createRoom s uuid now hostName numbersPerCard = (s', outs)" and "serverOk s"
  shows "serverOk s'"
proof (cases "hostName = None \<or> hostName = Some []")
  case True
  with assms show ?thesis by (simp add: createRoom_def)
next
  case False
  with assms(1) have "\<exists>room. s' = s\<lparr>rooms := (rooms s)(take 8 uuid \<mapsto> room)\<rparr>
      \<and> r_drawnNumbers room = [] \<and> r_participants room = Map.empty"
    by (simp add: createRoom_def Let_def) force
  then obtain room where s': "s' = s\<lparr>rooms := (rooms s)(take 8 uuid \<mapsto> room)\<rparr>"
    and room: "r_drawnNumbers room = []" "r_participants room = Map.empty"
    by blast
  from room have "roomOk room" by (simp add: roomOk_def drawnNumbersOk_empty)
  then show ?thesis unfolding s' by (rule serverOk_update [OF assms(2)])
qed

lemma joinRoom_ok:
  assumes "joinRoom s uuid now us roomId participantName = Some (s', outs)" and "serverOk s"
  shows "serverOk s'"
proof (cases "participantName = None \<or> participantName = Some []")
  case True
  with assms show ?thesis by (simp add: joinRoom_def)
next
  case named: False
  show ?thesis
  proof (cases "rooms s roomId")
    case None
    with named assms show ?thesis by (auto simp: joinRoom_def split: if_splits)
  next
    case (Some room)
    with named assms(1) obtain p where
      s': "s' = s\<lparr>rooms := (rooms s)(roomId \<mapsto>
              room\<lparr>r_participants := (r_participants room)(uuid \<mapsto> p)\<rparr>)\<rparr>"
      and p: "p_markedNumbers p = []"
      by (auto simp: joinRoom_def Let_def split: option.splits if_splits)
    from assms(2) Some have "roomOk room" by (simp add: serverOk_def)
    with p have "roomOk (room\<lparr>r_participants := (r_participants room)(uuid \<mapsto> p)\<rparr>)"
      by (simp add: roomOk_def)
    then show ?thesis unfolding s' by (rule serverOk_update [OF assms(2)])
  qed
qed

lemma drawNumber_ok:
  assumes "drawNumber s socket now us roomId = Some (s', outs)" and "serverOk s"
    and "unit_samples us"
  shows "serverOk s'"
proof (cases "\<exists>info room. users s socket = Some info \<and> u_isHost info
    \<and> rooms s roomId = Some room \<and> length (r_drawnNumbers room) < 75")
  case False
  with assms(1) have "s' = s"
    by (auto simp: drawNumber_def maxNumber_def split: option.splits if_splits)
  with assms(2) show ?thesis by simp
next
  case True
  then obtain info room where c: "users s socket = Some info" "u_isHost info"
    "rooms s roomId = Some room" "length (r_drawnNumbers room) < 75" by blast
  from drawNumber_drawn [OF assms(1) c] obtain number where
    n: "drawLoop (r_drawnNumbers room) us = Some number"
    and s': "s' = s\<lparr>rooms := (rooms s)(roomId \<mapsto>
          room\<lparr>r_drawnNumbers := sort (r_drawnNumbers room @ [number]),
               r_lastDrawnAt := Some now\<rparr>)\<rparr>"
    by blast
  from assms(2) c(3) have ok: "roomOk room" by (simp add: serverOk_def)
  then have "drawnNumbersOk (r_drawnNumbers room)" by (simp add: roomOk_def)
  from drawnNumbersOk_draw [OF this c(4)] drawLoop_number [OF n assms(3)]
  have "drawnNumbersOk (sort (r_drawnNumbers room @ [number]))" by simp
  with ok have "roomOk (room\<lparr>r_drawnNumbers := sort (r_drawnNumbers room @ [number]),
               r_lastDrawnAt := Some now\<rparr>)"
    by (simp add: roomOk_def)
  then show ?thesis unfolding s' by (rule serverOk_update [OF assms(2)])
qed

lemma toggle_ok:
  assumes "distinct marked" and "set marked \<subseteq> set numbers" and "number \<in> set numbers"
  shows "distinct (if number \<in> set marked then remove1 number marked else marked @ [number])"
    and "set (if number \<in> set marked then remove1 number marked else marked @ [number])
      \<subseteq> set numbers"
  using assms by (auto dest: notin_set_remove1 simp: set_remove1_eq)

lemma markNumber_ok:
  assumes "markNumber s socket roomId userId number = (s', outs)" and "serverOk s"
  shows "serverOk s'"
proof (cases "\<exists>room p. rooms s roomId = Some room \<and> r_participants room userId = Some p
    \<and> number \<in> set (p_card p)")
  case False
  with assms(1) have "s' = s"
    by (auto simp: markNumber_def getProperty_def split: option.splits if_splits)
  with assms(2) show ?thesis by simp
next
  case True
  then obtain room p where c: "rooms s roomId = Some room" "r_participants room userId = Some p"
    "number \<in> set (p_card p)" by blast
  define marked where "marked = (if number \<in> set (p_markedNumbers p)
    then remove1 number (p_markedNumbers p) else p_markedNumbers p @ [number])"
  from assms(1) c have s': "s' = s\<lparr>rooms := (rooms s)(roomId \<mapsto>
      room\<lparr>r_participants := (r_participants room)(userId \<mapsto> p\<lparr>p_markedNumbers := marked\<rparr>)\<rparr>)\<rparr>"
    by (simp add: markNumber_def getProperty_def Let_def marked_def)
  from assms(2) c(1) have ok: "roomOk room" by (simp add: serverOk_def)
  with c(2) have "distinct (p_markedNumbers p)" "set (p_markedNumbers p) \<subseteq> set (p_card p)"
    by (simp_all add: roomOk_def)
  from toggle_ok [OF this c(3)] have "distinct marked" "set marked \<subseteq> set (p_card p)"
    unfolding marked_def by blast+
  with ok have "roomOk (room\<lparr>r_participants :=
      (r_participants room)(userId \<mapsto> p\<lparr>p_markedNumbers := marked\<rparr>)\<rparr>)"
    by (simp add: roomOk_def)
  then show ?thesis unfolding s' by (rule serverOk_update [OF assms(2)])
qed

lemma resetDraw_ok:
  assumes "resetDraw s socket roomId = (s', outs)" and "serverOk s"
  shows "serverOk s'"
proof (cases "\<exists>info room. users s socket = Some info \<and> u_isHost info \<and> rooms s roomId = Some room")
  case False
  with assms(1) have "s' = s"
    by (auto simp: resetDraw_def split: option.splits if_splits)
  with assms(2) show ?thesis by simp
next
  case True
  then obtain info room where c: "users s socket = Some info" "u_isHost info"
    "rooms s roomId = Some room" by blast
  let ?room' = "room\<lparr> r_drawnNumbers := [], r_lastDrawnAt := None,
      r_participants := (\<lambda>userId. map_option (\<lambda>p. p\<lparr>p_markedNumbers := []\<rparr>)
         (r_participants room userId)) \<rparr>"
  from assms(1) c have s': "s' = s\<lparr>rooms := (rooms s)(roomId \<mapsto> ?room')\<rparr>"
    by (simp add: resetDraw_def Let_def)
  have "roomOk ?room'" by (auto simp: roomOk_def drawnNumbersOk_empty)
  then show ?thesis unfolding s' by (rule serverOk_update [OF assms(2)])
qed

lemma handle_ok:
  assumes "handle s socket e request = Some (s', outs)" and "serverOk s"
    and "unit_samples (e_samples e)"
  shows "serverOk s'"
proof (cases request)
  case (CreateRoom hostName numbersPerCard)
  with assms show ?thesis by (auto intro: createRoom_ok)
next
  case (GetRoom roomId)
  with assms show ?thesis by (auto simp: getRoom_def split: option.splits)
next
  case (JoinRoom roomId participantName)
  with assms show ?thesis by (auto intro: joinRoom_ok)
next
  case (JoinAsHost roomId userId)
  with assms show ?thesis by (auto simp: joinAsHost_def serverOk_users split: option.splits)
next
  case (JoinAsParticipant roomId userId)
  with assms show ?thesis
    by (auto simp: joinAsParticipant_def serverOk_users split: option.splits property.splits)
next
  case (DrawNumber roomId)
  with assms show ?thesis by (auto intro: drawNumber_ok)
next
  case (MarkNumber roomId userId number)
  with assms show ?thesis by (auto intro: markNumber_ok)
next
  case (ResetDraw roomId)
  with assms show ?thesis by (auto intro: resetDraw_ok)
next
  case (GetRoomState roomId)
  with assms show ?thesis by (auto simp: getRoomState_def split: option.splits)
next
  case Disconnect
  with assms show ?thesis by (auto simp: disconnect_def serverOk_users)
qed

lemma reachable_ok: "reachable s \<Longrightarrow> serverOk s"
proof (induction rule: reachable.induct)
  case start
  show ?case by (simp add: serverOk_def initial_def)
next
  case (step s e socket request s' outs)
  from handle_ok [OF step.hyps(3) step.IH step.hyps(2)] show ?case .
qed

lemma drawsOk_update:
  assumes "drawsOk s" and "drawnNumbersOk (r_drawnNumbers room)"
  shows "drawsOk (s\<lparr>rooms := (rooms s)(roomId \<mapsto> room)\<rparr>)"
  using assms by (simp add: drawsOk_def)

lemma drawNumber_drawsOk:
  assumes "drawsOk s" and "unit_samples us"
    and "drawNumber s socket now us roomId = Some (s', outs)"
  shows "drawsOk s'"
proof (cases "\<exists>info room. users s socket = Some info \<and> u_isHost info
    \<and> rooms s roomId = Some room \<and> length (r_drawnNumbers room) < 75")
  case False
  with assms(3) have "s' = s"
    by (auto simp: drawNumber_def maxNumber_def split: option.splits if_splits)
  with assms(1) show ?thesis by simp
next
  case True
  then obtain info room where c: "users s socket = Some info" "u_isHost info"
    "rooms s roomId = Some room" "length (r_drawnNumbers room) < 75" by blast
  from drawNumber_drawn [OF assms(3) c] obtain number where
    n: "drawLoop (r_drawnNumbers room) us = Some number"
    and s': "s' = s\<lparr>rooms := (rooms s)(roomId \<mapsto>
          room\<lparr>r_drawnNumbers := sort (r_drawnNumbers room @ [number]),
               r_lastDrawnAt := Some now\<rparr>)\<rparr>"
    by blast
  from assms(1) c(3) have "drawnNumbersOk (r_drawnNumbers room)" by (simp add: drawsOk_def)
  from drawnNumbersOk_draw [OF this c(4)] drawLoop_number [OF n assms(2)]
  have "drawnNumbersOk (sort (r_drawnNumbers room @ [number]))" by simp
  then show ?thesis unfolding s' by (intro drawsOk_update [OF assms(1)]) simp
qed

lemma resetDraw_drawsOk:
  assumes "drawsOk s" and "resetDraw s socket roomId = (s', outs)"
  shows "drawsOk s'"
proof (cases "\<exists>info room. users s socket = Some info \<and> u_isHost info \<and> rooms s roomId = Some room")
  case False
  with assms(2) have "s' = s"
    by (auto simp: resetDraw_def split: option.splits if_splits)
  with assms(1) show ?thesis by simp
next
  case True
  then obtain info room where c: "users s socket = Some info" "u_isHost info"
    "rooms s roomId = Some room" by blast
  from assms(2) c have "\<exists>room'. s' = s\<lparr>rooms := (rooms s)(roomId \<mapsto> room')\<rparr>
      \<and> r_drawnNumbers room' = []"
    by (simp add: resetDraw_def Let_def) force
  then obtain room' where s': "s' = s\<lparr>rooms := (rooms s)(roomId \<mapsto> room')\<rparr>"
    and "r_drawnNumbers room' = []"
    by blast
  then show ?thesis using drawsOk_update [OF assms(1)] by (simp add: drawnNumbersOk_empty)
qed

lemma draws_reachable:
  assumes "draws socket roomId k s s'" and "reachable s"
  shows "reachable s'"
  using assms
proof (induction rule: draws.induct)
  case (none s)
  then show ?case .
next
  case (more k s s' us now s'' number drawn totalDrawn)
  have "handle s' socket \<lparr> e_uuid = [], e_now = now, e_samples = us \<rparr> (DrawNumber roomId)
      = Some (s'', [ToRoom roomId (NumberDrawn number drawn totalDrawn)])"
    using more.hyps(3) by simp
  from reachable.step [OF more.IH [OF more.prems] _ this] more.hyps(2) show ?case by simp
qed

text \<open>The example state is reached by creating the room, joining it and connecting.\<close>

lemma exampleServerDrawn_reachable: "k \<le> 75 \<Longrightarrow> reachable (exampleServerDrawn k)"
proof -
  assume k: "k \<le> 75"
  let ?room0 = "\<lparr> r_id = ''0a1b2c3d'', r_hostName = ''Ana'', r_numbersPerCard = 24,
      r_drawnNumbers = [], r_lastDrawnAt = None, r_participants = Map.empty, r_createdAt = 10 \<rparr>"
  let ?s1 = "\<lparr> rooms = [''0a1b2c3d'' \<mapsto> ?room0], users = Map.empty \<rparr>"
  let ?room1 = "?room0\<lparr>r_participants := [''7f3c'' \<mapsto> bruno\<lparr>p_markedNumbers := []\<rparr>]\<rparr>"
  let ?s2 = "\<lparr> rooms = [''0a1b2c3d'' \<mapsto> ?room1], users = Map.empty \<rparr>"
  let ?s3 = "?s2\<lparr>users := [''sockA'' \<mapsto>
      \<lparr> u_userId = ''host'', u_roomId = ''0a1b2c3d'', u_isHost = True \<rparr>]\<rparr>"
  have "handle initial ''http''
      \<lparr> e_uuid = ''0a1b2c3d-5e6f-4a7b-8c9d-0e1f2a3b4c5d'', e_now = 10, e_samples = [] \<rparr>
      (CreateRoom (Some ''Ana'') None)
    = Some (?s1, [Respond 200 (RoomCreated ''0a1b2c3d'' ?room0)])"
    by (simp add: createRoom_def initial_def Let_def)
  from reachable.step [OF reachable.start _ this] have r1: "reachable ?s1"
    by (simp add: unit_samples_def)
  have "handle ?s1 ''http'' \<lparr> e_uuid = ''7f3c'', e_now = 20, e_samples = samples24 \<rparr>
      (JoinRoom ''0a1b2c3d'' (Some ''Bruno''))
    = Some (?s2, [ToRoom ''0a1b2c3d'' (ParticipantJoined (bruno\<lparr>p_markedNumbers := []\<rparr>) 1),
        Respond 200 (Joined ''7f3c'' ?room1 (bruno\<lparr>p_markedNumbers := []\<rparr>))])"
    by (simp add: joinRoom_def run24 bruno_def card24_def Let_def)
  from reachable.step [OF r1 _ this] have r2: "reachable ?s2"
    by (simp add: unit_samples24)
  have "handle ?s2 ''sockA'' \<lparr> e_uuid = [], e_now = 21, e_samples = [] \<rparr>
      (JoinAsHost ''0a1b2c3d'' ''host'')
    = Some (?s3, [Subscribe ''sockA'' ''0a1b2c3d'', Emit ''sockA'' (RoomJoined ?room1 True Undefined)])"
    by (simp add: joinAsHost_def)
  from reachable.step [OF r2 _ this] have r3: "reachable ?s3"
    by (simp add: unit_samples_def)
  have "handle ?s3 ''sockB'' \<lparr> e_uuid = [], e_now = 22, e_samples = [] \<rparr>
      (JoinAsParticipant ''0a1b2c3d'' ''7f3c'')
    = Some (exampleServerDrawn 0, [Subscribe ''sockB'' ''0a1b2c3d'',
        Emit ''sockB'' (RoomJoined ?room1 False (Own (bruno\<lparr>p_markedNumbers := []\<rparr>)))])"
    by (simp add: joinAsParticipant_def getProperty_def exampleServerDrawn_def exampleServer_def
        roomAna_def)
  from reachable.step [OF r3 _ this] have "reachable (exampleServerDrawn 0)"
    by (simp add: unit_samples_def)
  with exampleServerDrawn_draws [OF k] show ?thesis by (rule draws_reachable)
qed

text \<open>
  C8. In every state that the requests reach from the empty server, with random samples
  in the unit interval, the drawn numbers of every room are sorted ascending, pairwise
  distinct, all in 1..75, and at most 75; \<open>drawNumber\<close> and \<open>resetDraw\<close> each lead from a
  state in which all rooms satisfy this to one in which all rooms do.
\<close>

theorem drawnNumbers_invariant:
  "(reachable s \<longrightarrow> rooms s roomId = Some room \<longrightarrow>
      sorted (r_drawnNumbers room) \<and> distinct (r_drawnNumbers room)
      \<and> set (r_drawnNumbers room) \<subseteq> {1..75} \<and> length (r_drawnNumbers room) \<le> 75)
    \<and> (drawsOk s \<longrightarrow> unit_samples us \<longrightarrow> drawNumber s socket now us roomId' = Some (s', outs) \<longrightarrow>
          drawsOk s')
    \<and> (drawsOk s \<longrightarrow> resetDraw s socket roomId' = (s'', outs') \<longrightarrow> drawsOk s'')"
proof (intro conjI impI)
  assume "reachable s" and r: "rooms s roomId = Some room"
  then have "serverOk s" by (simp add: reachable_ok)
  with r have "drawnNumbersOk (r_drawnNumbers room)" by (simp add: serverOk_def roomOk_def)
  then show "sorted (r_drawnNumbers room)" "distinct (r_drawnNumbers room)"
    "set (r_drawnNumbers room) \<subseteq> {1..75}" "length (r_drawnNumbers room) \<le> 75"
    by (simp_all add: drawnNumbersOk_def)
next
  assume "drawsOk s" "unit_samples us" "drawNumber s socket now us roomId' = Some (s', outs)"
  then show "drawsOk s'" by (rule drawNumber_drawsOk)
next
  assume "drawsOk s" "resetDraw s socket roomId' = (s'', outs')"
  then show "drawsOk s''" by (rule resetDraw_drawsOk)
qed

theorem drawnNumbers_invariant_witness:
  "reachable (exampleServerDrawn 75)
    \<and> rooms (exampleServerDrawn 75) ''0a1b2c3d''
        = Some (roomAna\<lparr> r_drawnNumbers := [1..<Suc 75], r_lastDrawnAt := Some 175,
                  r_participants := [''7f3c'' \<mapsto> bruno\<lparr>p_markedNumbers := []\<rparr>] \<rparr>)
    \<and> sorted [1..<Suc 75] \<and> distinct [1..<Suc 75] \<and> set [1..<Suc 75] \<subseteq> {1..75}
    \<and> length [1..<Suc 75] \<le> 75
    \<and> drawsOk exampleServer \<and> unit_samples [8/25, 1/2]
    \<and> drawNumber exampleServer ''sockA'' 50 [8/25, 1/2] ''0a1b2c3d''
        = Some (exampleServer\<lparr>rooms := (rooms exampleServer)(''0a1b2c3d'' \<mapsto>
                  roomAna\<lparr>r_drawnNumbers := [8, 25, 38, 40], r_lastDrawnAt := Some 50\<rparr>)\<rparr>,
                [ToRoom ''0a1b2c3d'' (NumberDrawn 38 [8, 25, 38, 40] 4)])
    \<and> drawsOk (exampleServer\<lparr>rooms := (rooms exampleServer)(''0a1b2c3d'' \<mapsto>
                  roomAna\<lparr>r_drawnNumbers := [8, 25, 38, 40], r_lastDrawnAt := Some 50\<rparr>)\<rparr>)
    \<and> drawsOk (fst (resetDraw exampleServer ''sockA'' ''0a1b2c3d''))
    \<and> rooms (fst (resetDraw exampleServer ''sockA'' ''0a1b2c3d'')) ''0a1b2c3d''
        = Some (roomAna\<lparr> r_drawnNumbers := [], r_lastDrawnAt := None,
                  r_participants := [''7f3c'' \<mapsto> bruno\<lparr>p_markedNumbers := []\<rparr>] \<rparr>)"
proof -
  let ?room75 = "roomAna\<lparr> r_drawnNumbers := [1..<Suc 75], r_lastDrawnAt := Some 175,
                  r_participants := [''7f3c'' \<mapsto> bruno\<lparr>p_markedNumbers := []\<rparr>] \<rparr>"
  let ?s' = "exampleServer\<lparr>rooms := (rooms exampleServer)(''0a1b2c3d'' \<mapsto>
                  roomAna\<lparr>r_drawnNumbers := [8, 25, 38, 40], r_lastDrawnAt := Some 50\<rparr>)\<rparr>"
  have re: "reachable (exampleServerDrawn 75)" by (rule exampleServerDrawn_reachable) simp
  have r75: "rooms (exampleServerDrawn 75) ''0a1b2c3d'' = Some ?room75"
    by (simp add: exampleServerDrawn_def del: upt_Suc)
  from drawnNumbers_invariant [of "exampleServerDrawn 75" "''0a1b2c3d''" ?room75] re r75
  have inv: "sorted [1..<Suc 75] \<and> distinct [1..<Suc 75] \<and> set [1..<Suc 75] \<subseteq> {1..75}
      \<and> length [1..<Suc 75] \<le> 75"
    by (simp del: upt_Suc)
  have ok: "drawsOk exampleServer"
    by (simp add: drawsOk_def exampleServer_def roomAna_def drawnNumbersOk_def)
  have us: "unit_samples [8/25, 1/2]" by (simp add: unit_samples_def)
  have d: "drawNumber exampleServer ''sockA'' 50 [8/25, 1/2] ''0a1b2c3d''
      = Some (?s', [ToRoom ''0a1b2c3d'' (NumberDrawn 38 [8, 25, 38, 40] 4)])"
    by (simp add: drawNumber_def exampleServer_def roomAna_def maxNumber_def Let_def)
  from drawnNumbers_invariant [of exampleServer _ _ "[8/25, 1/2]" "''sockA''" 50 "''0a1b2c3d''" ?s'] ok us d
  have ok': "drawsOk ?s'" by blast
  from drawnNumbers_invariant [of exampleServer _ _ _ "''sockA''" _ "''0a1b2c3d''" _ _
      "fst (resetDraw exampleServer ''sockA'' ''0a1b2c3d'')"
      "snd (resetDraw exampleServer ''sockA'' ''0a1b2c3d'')"] ok
  have ok'': "drawsOk (fst (resetDraw exampleServer ''sockA'' ''0a1b2c3d''))" by simp
  have rr: "rooms (fst (resetDraw exampleServer ''sockA'' ''0a1b2c3d'')) ''0a1b2c3d''
        = Some (roomAna\<lparr> r_drawnNumbers := [], r_lastDrawnAt := None,
                  r_participants := [''7f3c'' \<mapsto> bruno\<lparr>p_markedNumbers := []\<rparr>] \<rparr>)"
    by (simp add: resetDraw_def exampleServer_def roomAna_def Let_def fun_eq_iff)
  from re r75 inv ok us d ok' ok'' rr show ?thesis by (simp only: simp_thms)
qed

lemma markNumber_own:
  assumes "rooms s roomId = Some room" and "r_participants room userId = Some p"
    and "number \<in> set (p_card p)"
  shows "fst (markNumber s socket roomId userId number)
    = s\<lparr>rooms := (rooms s)(roomId \<mapsto> room\<lparr>r_participants := (r_participants room)(userId \<mapsto>
        p\<lparr>p_markedNumbers := (if number \<in> set (p_markedNumbers p)
              then remove1 number (p_markedNumbers p) else p_markedNumbers p @ [number])\<rparr>)\<rparr>)\<rparr>"
  using assms by (simp add: markNumber_def getProperty_def Let_def)

lemma exampleMarked_step:
  assumes "number \<in> set (cd_numbers card24)"
  shows "fst (markNumber (exampleMarked marked) ''sockB'' ''0a1b2c3d'' ''7f3c'' number)
    = exampleMarked (if number \<in> set marked then remove1 number marked else marked @ [number])"
proof -
  have "rooms (exampleMarked marked) ''0a1b2c3d''
      = Some (roomAna\<lparr> r_drawnNumbers := [1..<Suc 8], r_lastDrawnAt := Some 108,
          r_participants := [''7f3c'' \<mapsto> bruno\<lparr>p_markedNumbers := marked\<rparr>] \<rparr>)"
    by (simp add: exampleMarked_def del: upt_Suc)
  from markNumber_own [OF this, of "''7f3c''" "bruno\<lparr>p_markedNumbers := marked\<rparr>" number]
  show ?thesis using assms
    by (simp add: bruno_def exampleMarked_def del: upt_Suc)
qed

lemma exampleMarked_reachable: "reachable (exampleMarked [2, 8])"
proof -
  have e: "exampleMarked [] = exampleServerDrawn 8"
    by (simp add: exampleMarked_def exampleServerDrawn_def del: upt_Suc)
  have r0: "reachable (exampleMarked [])" unfolding e by (rule exampleServerDrawn_reachable) simp
  have m: "\<And>s socket roomId userId number. reachable s
    \<Longrightarrow> reachable (fst (markNumber s socket roomId userId number))"
  proof -
    fix s socket roomId userId number
    assume r: "reachable s"
    have "handle s socket \<lparr> e_uuid = [], e_now = 0, e_samples = [] \<rparr>
        (MarkNumber roomId userId number)
      = Some (fst (markNumber s socket roomId userId number),
          snd (markNumber s socket roomId userId number))"
      by simp
    from reachable.step [OF r _ this]
    show "reachable (fst (markNumber s socket roomId userId number))"
      by (simp add: unit_samples_def)
  qed
  have "fst (markNumber (exampleMarked []) ''sockB'' ''0a1b2c3d'' ''7f3c'' 2) = exampleMarked [2]"
    using exampleMarked_step [of 2 "[]"] by (simp add: card24_def)
  with m [OF r0, of "''sockB''" "''0a1b2c3d''" "''7f3c''" 2]
  have r1: "reachable (exampleMarked [2])" by simp
  have "fst (markNumber (exampleMarked [2]) ''sockB'' ''0a1b2c3d'' ''7f3c'' 8) = exampleMarked [2, 8]"
    using exampleMarked_step [of 8 "[2]"] by (simp add: card24_def)
  with m [OF r1, of "''sockB''" "''0a1b2c3d''" "''7f3c''" 8]
  show ?thesis by simp
qed

text \<open>
  C6 (as stated, refuted). Bruno has marked 2 and then 8. Toggling 2 twice leaves the
  marked numbers as 8, 2: the number that was unmarked and marked again is appended.
\<close>

theorem toggle_twice_counterexample:
  "reachable (exampleMarked [2, 8])
    \<and> 2 \<in> set (p_card bruno)
    \<and> markNumber (exampleMarked [2, 8]) ''sockB'' ''0a1b2c3d'' ''7f3c'' 2
        = (exampleMarked [8], [Emit ''sockB'' (NumberMarked 2 [8] False)])
    \<and> markNumber (exampleMarked [8]) ''sockB'' ''0a1b2c3d'' ''7f3c'' 2
        = (exampleMarked [8, 2], [Emit ''sockB'' (NumberMarked 2 [8, 2] False)])
    \<and> exampleMarked [8, 2] \<noteq> exampleMarked [2, 8]
    \<and> map_option p_markedNumbers
          (r_participants (the (rooms (exampleMarked [2, 8]) ''0a1b2c3d'')) ''7f3c'') = Some [2, 8]
    \<and> map_option p_markedNumbers
          (r_participants (the (rooms (exampleMarked [8, 2]) ''0a1b2c3d'')) ''7f3c'') = Some [8, 2]"
proof -
  have a: "markNumber (exampleMarked [2, 8]) ''sockB'' ''0a1b2c3d'' ''7f3c'' 2
        = (exampleMarked [8], [Emit ''sockB'' (NumberMarked 2 [8] False)])"
    by (simp add: markNumber_def getProperty_def exampleMarked_def bruno_def card24_def Let_def
        del: upt_Suc)
  have b: "markNumber (exampleMarked [8]) ''sockB'' ''0a1b2c3d'' ''7f3c'' 2
        = (exampleMarked [8, 2], [Emit ''sockB'' (NumberMarked 2 [8, 2] False)])"
    by (simp add: markNumber_def getProperty_def exampleMarked_def bruno_def card24_def Let_def
        del: upt_Suc)
  have c: "map_option p_markedNumbers
          (r_participants (the (rooms (exampleMarked [2, 8]) ''0a1b2c3d'')) ''7f3c'') = Some [2, 8]"
    "map_option p_markedNumbers
          (r_participants (the (rooms (exampleMarked [8, 2]) ''0a1b2c3d'')) ''7f3c'') = Some [8, 2]"
    by (simp_all add: exampleMarked_def del: upt_Suc)
  then have d: "exampleMarked [8, 2] \<noteq> exampleMarked [2, 8]" by auto
  have e: "2 \<in> set (p_card bruno)" by (simp add: bruno_def card24_def)
  from exampleMarked_reachable a b c d e show ?thesis by (simp only: simp_thms)
qed

lemma markNumber_twice:
  assumes "rooms s roomId = Some room" and "r_participants room userId = Some p"
    and "number \<in> set (p_card p)" and "distinct (p_markedNumbers p)"
  shows "fst (markNumber (fst (markNumber s socket roomId userId number)) socket roomId userId number)
    = s\<lparr>rooms := (rooms s)(roomId \<mapsto> room\<lparr>r_participants := (r_participants room)(userId \<mapsto>
        p\<lparr>p_markedNumbers := (if number \<in> set (p_markedNumbers p)
              then remove1 number (p_markedNumbers p) @ [number] else p_markedNumbers p)\<rparr>)\<rparr>)\<rparr>"
proof -
  define m1 where "m1 = (if number \<in> set (p_markedNumbers p)
    then remove1 number (p_markedNumbers p) else p_markedNumbers p @ [number])"
  define p1 where "p1 = p\<lparr>p_markedNumbers := m1\<rparr>"
  define room1 where "room1 = room\<lparr>r_participants := (r_participants room)(userId \<mapsto> p1)\<rparr>"
  define s1 where "s1 = s\<lparr>rooms := (rooms s)(roomId \<mapsto> room1)\<rparr>"
  have first: "fst (markNumber s socket roomId userId number) = s1"
    unfolding s1_def room1_def p1_def m1_def by (rule markNumber_own [OF assms(1-3)])
  have r1: "rooms s1 roomId = Some room1" by (simp add: s1_def)
  have q1: "r_participants room1 userId = Some p1" by (simp add: room1_def)
  have c1: "number \<in> set (p_card p1)" using assms(3) by (simp add: p1_def)
  define m2 where "m2 = (if number \<in> set (p_markedNumbers p)
    then remove1 number (p_markedNumbers p) @ [number] else p_markedNumbers p)"
  have m2: "(if number \<in> set (p_markedNumbers p1) then remove1 number (p_markedNumbers p1)
      else p_markedNumbers p1 @ [number]) = m2"
    using assms(4) by (simp add: p1_def m1_def m2_def remove1_append)
  have "fst (markNumber s1 socket roomId userId number)
      = s1\<lparr>rooms := (rooms s1)(roomId \<mapsto> room1\<lparr>r_participants := (r_participants room1)(userId \<mapsto>
        p1\<lparr>p_markedNumbers := m2\<rparr>)\<rparr>)\<rparr>"
    using markNumber_own [OF r1 q1 c1, of socket] unfolding m2 .
  also have "\<dots> = s\<lparr>rooms := (rooms s)(roomId \<mapsto> room\<lparr>r_participants :=
      (r_participants room)(userId \<mapsto> p\<lparr>p_markedNumbers := m2\<rparr>)\<rparr>)\<rparr>"
    by (simp add: s1_def room1_def p1_def)
  finally show ?thesis unfolding first m2_def .
qed

text \<open>
  C6 (amended). In a reachable state, for a participant of the room and a number on the
  participant's card, \<open>markNumber\<close> twice with this number changes nothing but the
  participant's marked numbers; these hold the same numbers as before, without
  repetition. If the number was not marked, the state is exactly the one before the two
  calls; if it was marked, the number has moved to the end of the marked numbers and the
  others keep their order.
\<close>

theorem toggle_twice:
  assumes "reachable s" and "rooms s roomId = Some room"
    and "r_participants room userId = Some p" and "number \<in> set (p_card p)"
  shows "\<exists>marked. fst (markNumber (fst (markNumber s socket roomId userId number))
                           socket roomId userId number)
        = s\<lparr>rooms := (rooms s)(roomId \<mapsto> room\<lparr>r_participants :=
              (r_participants room)(userId \<mapsto> p\<lparr>p_markedNumbers := marked\<rparr>)\<rparr>)\<rparr>
      \<and> set marked = set (p_markedNumbers p) \<and> distinct marked
      \<and> (number \<notin> set (p_markedNumbers p) \<longrightarrow> marked = p_markedNumbers p
            \<and> fst (markNumber (fst (markNumber s socket roomId userId number))
                     socket roomId userId number) = s)
      \<and> (number \<in> set (p_markedNumbers p) \<longrightarrow>
            marked = remove1 number (p_markedNumbers p) @ [number])"
proof -
  from assms(1) have "serverOk s" by (rule reachable_ok)
  with assms(2,3) have d: "distinct (p_markedNumbers p)" by (simp add: serverOk_def roomOk_def)
  let ?marked = "if number \<in> set (p_markedNumbers p)
    then remove1 number (p_markedNumbers p) @ [number] else p_markedNumbers p"
  let ?s2 = "fst (markNumber (fst (markNumber s socket roomId userId number))
    socket roomId userId number)"
  have eq: "?s2 = s\<lparr>rooms := (rooms s)(roomId \<mapsto> room\<lparr>r_participants :=
      (r_participants room)(userId \<mapsto> p\<lparr>p_markedNumbers := ?marked\<rparr>)\<rparr>)\<rparr>"
    by (rule markNumber_twice [OF assms(2-4) d])
  have elems: "set ?marked = set (p_markedNumbers p)"
    using d by (auto simp: set_remove1_eq)
  have dist: "distinct ?marked" using d by (simp add: set_remove1_eq)
  have same: "number \<notin> set (p_markedNumbers p) \<Longrightarrow> ?s2 = s"
  proof -
    assume n: "number \<notin> set (p_markedNumbers p)"
    have "room\<lparr>r_participants := (r_participants room)(userId \<mapsto> p)\<rparr> = room"
      using assms(3) by (simp add: map_upd_triv)
    then have "s\<lparr>rooms := (rooms s)(roomId \<mapsto> room\<lparr>r_participants :=
        (r_participants room)(userId \<mapsto> p\<lparr>p_markedNumbers := p_markedNumbers p\<rparr>)\<rparr>)\<rparr> = s"
      using assms(2) by (simp add: map_upd_triv)
    with eq n show "?s2 = s" by simp
  qed
  show ?thesis
    using eq elems dist same by (intro exI [of _ ?marked]) simp
qed

theorem toggle_twice_witness:
  "reachable (exampleMarked [2, 8])
    \<and> rooms (exampleMarked [2, 8]) ''0a1b2c3d''
        = Some (roomAna\<lparr> r_drawnNumbers := [1..<Suc 8], r_lastDrawnAt := Some 108,
                  r_participants := [''7f3c'' \<mapsto> bruno\<lparr>p_markedNumbers := [2, 8]\<rparr>] \<rparr>)
    \<and> 2 \<in> set (p_card (bruno\<lparr>p_markedNumbers := [2, 8]\<rparr>))
    \<and> 11 \<in> set (p_card (bruno\<lparr>p_markedNumbers := [2, 8]\<rparr>))
    \<and> fst (markNumber (fst (markNumber (exampleMarked [2, 8]) ''sockB'' ''0a1b2c3d'' ''7f3c'' 2))
          ''sockB'' ''0a1b2c3d'' ''7f3c'' 2) = exampleMarked [8, 2]
    \<and> set [8, 2] = set [2, 8::nat] \<and> distinct [8, 2::nat]
    \<and> fst (markNumber (fst (markNumber (exampleMarked [2, 8]) ''sockB'' ''0a1b2c3d'' ''7f3c'' 11))
          ''sockB'' ''0a1b2c3d'' ''7f3c'' 11) = exampleMarked [2, 8]"
proof -
  let ?room = "roomAna\<lparr> r_drawnNumbers := [1..<Suc 8], r_lastDrawnAt := Some 108,
                  r_participants := [''7f3c'' \<mapsto> bruno\<lparr>p_markedNumbers := [2, 8]\<rparr>] \<rparr>"
  let ?p = "bruno\<lparr>p_markedNumbers := [2, 8]\<rparr>"
  note re = exampleMarked_reachable
  have r: "rooms (exampleMarked [2, 8]) ''0a1b2c3d'' = Some ?room"
    by (simp add: exampleMarked_def del: upt_Suc)
  have q: "r_participants ?room ''7f3c'' = Some ?p" by simp
  have c2: "2 \<in> set (p_card ?p)" and c11: "11 \<in> set (p_card ?p)"
    by (simp_all add: bruno_def card24_def)
  from toggle_twice [OF re r q c11, of "''sockB''"]
  have restored: "fst (markNumber (fst (markNumber (exampleMarked [2, 8]) ''sockB'' ''0a1b2c3d'' ''7f3c'' 11))
          ''sockB'' ''0a1b2c3d'' ''7f3c'' 11) = exampleMarked [2, 8]"
    by auto
  from toggle_twice [OF re r q c2, of "''sockB''"] obtain marked where
    m: "fst (markNumber (fst (markNumber (exampleMarked [2, 8]) ''sockB'' ''0a1b2c3d'' ''7f3c'' 2))
          ''sockB'' ''0a1b2c3d'' ''7f3c'' 2)
        = (exampleMarked [2, 8])\<lparr>rooms := (rooms (exampleMarked [2, 8]))(''0a1b2c3d'' \<mapsto>
            ?room\<lparr>r_participants := (r_participants ?room)(''7f3c'' \<mapsto> ?p\<lparr>p_markedNumbers := marked\<rparr>)\<rparr>)\<rparr>"
      "set marked = set (p_markedNumbers ?p)" "distinct marked"
      "marked = remove1 2 (p_markedNumbers ?p) @ [2]"
    by auto
  from m(4) have mk: "marked = [8, 2]" by simp
  with m(2,3) have sd: "set [8, 2] = set [2, 8::nat]" "distinct [8, 2::nat]" by simp_all
  have moved: "fst (markNumber (fst (markNumber (exampleMarked [2, 8]) ''sockB'' ''0a1b2c3d'' ''7f3c'' 2))
          ''sockB'' ''0a1b2c3d'' ''7f3c'' 2) = exampleMarked [8, 2]"
    unfolding m(1) mk by (simp add: exampleMarked_def del: upt_Suc)
  from re r c2 c11 moved sd restored show ?thesis by (simp only: simp_thms)
qed

text \<open>Every handler behaves so whenever it reports an error.\<close>

lemma createRoom_errorPath:
  "createRoom s uuid now hostName numbersPerCard = (s', outs) \<Longrightarrow> errorPath s socket s' outs"
  by (auto simp: createRoom_def errorPath_def Let_def split: if_splits)

lemma getRoom_errorPath: "getRoom s roomId = (s', outs) \<Longrightarrow> errorPath s socket s' outs"
  by (auto simp: getRoom_def errorPath_def split: option.splits)

lemma joinRoom_errorPath:
  "joinRoom s uuid now us roomId participantName = Some (s', outs) \<Longrightarrow> errorPath s socket s' outs"
  by (auto simp: joinRoom_def errorPath_def Let_def split: if_splits option.splits)

lemma joinAsHost_errorPath:
  "joinAsHost s socket roomId userId = (s', outs) \<Longrightarrow> errorPath s socket s' outs"
  by (auto simp: joinAsHost_def errorPath_def split: option.splits)

lemma joinAsParticipant_errorPath:
  "joinAsParticipant s socket roomId userId = (s', outs) \<Longrightarrow> errorPath s socket s' outs"
  by (auto simp: joinAsParticipant_def errorPath_def split: option.splits property.splits)

lemma drawNumber_errorPath:
  "drawNumber s socket now us roomId = Some (s', outs) \<Longrightarrow> errorPath s socket s' outs"
  by (auto simp: drawNumber_def errorPath_def Let_def split: option.splits if_splits)

lemma markNumber_errorPath:
  "markNumber s socket roomId userId number = (s', outs) \<Longrightarrow> errorPath s socket s' outs"
  by (auto simp: markNumber_def errorPath_def Let_def
      split: option.splits property.splits if_splits)

lemma resetDraw_errorPath:
  "resetDraw s socket roomId = (s', outs) \<Longrightarrow> errorPath s socket s' outs"
  by (auto simp: resetDraw_def errorPath_def Let_def split: option.splits if_splits)

lemma getRoomState_errorPath:
  "getRoomState s socket roomId = (s', outs) \<Longrightarrow> errorPath s socket s' outs"
  by (auto simp: getRoomState_def errorPath_def split: option.splits)

lemma handle_errorPath:
  assumes "handle s socket e request = Some (s', outs)"
  shows "errorPath s socket s' outs"
proof (cases request)
  case (CreateRoom hostName numbersPerCard)
  with assms show ?thesis by (auto intro: createRoom_errorPath)
next
  case (GetRoom roomId)
  with assms show ?thesis by (auto intro: getRoom_errorPath)
next
  case (JoinRoom roomId participantName)
  with assms show ?thesis by (auto intro: joinRoom_errorPath)
next
  case (JoinAsHost roomId userId)
  with assms show ?thesis by (auto intro: joinAsHost_errorPath)
next
  case (JoinAsParticipant roomId userId)
  with assms show ?thesis by (auto intro: joinAsParticipant_errorPath)
next
  case (DrawNumber roomId)
  with assms show ?thesis by (auto intro: drawNumber_errorPath)
next
  case (MarkNumber roomId userId number)
  with assms show ?thesis by (auto intro: markNumber_errorPath)
next
  case (ResetDraw roomId)
  with assms show ?thesis by (auto intro: resetDraw_errorPath)
next
  case (GetRoomState roomId)
  with assms show ?thesis by (auto intro: getRoomState_errorPath)
next
  case Disconnect
  with assms show ?thesis by (auto simp: disconnect_def errorPath_def)
qed


text \<open>
  C4 (the code departs from the claim). \<open>markNumber\<close> for an existing room with the
  participant id \<open>constructor\<close>, which names no participant of the room: the lookup in
  the plain object \<open>room.participants\<close> yields the inherited \<open>Object.prototype.constructor\<close>,
  the check \<open>!participant\<close> passes, and \<open>participant.card.includes\<close> throws a \<open>TypeError\<close>
  that leaves the handler. No error is sent to the caller. On all other paths the
  handlers behave as the claim says (\<open>handle_errorPath\<close>).
\<close>

theorem markNumber_inherited_key_throws:
  "rooms exampleServer ''0a1b2c3d'' = Some roomAna
    \<and> r_participants roomAna ''constructor'' = None
    \<and> getProperty (r_participants roomAna) ''constructor'' = Inherited
    \<and> markNumber exampleServer ''sockB'' ''0a1b2c3d'' ''constructor'' 11
        = (exampleServer, [Uncaught TypeError])
    \<and> markNumber exampleServer ''sockB'' ''0a1b2c3d'' ''nobody'' 11
        = (exampleServer, [Emit ''sockB'' (ErrorMsg NotFoundError)])"
  by (simp add: markNumber_def getProperty_def objectPrototypeKeys_def exampleServer_def
      roomAna_def)

end
